theory Spec2Isabelle
  imports Main "HOL-Library.Word" "HOL-Library.Monad_Syntax"
begin

unbundle bit_operations_syntax

section \<open>The Status-MQTT-Homebridge sketch\<close>

text \<open>
  A shallow embedding of \<^verbatim>\<open>examples/Status-MQTT-Homebridge/Status-MQTT-Homebridge.ino\<close>.
  The sketch talks to two collaborators whose code is not part of the file: the Keybus
  library object \<^verbatim>\<open>dsc\<close> and the PubSubClient object \<^verbatim>\<open>mqtt\<close>. The public members of
  \<^verbatim>\<open>dsc\<close> that the sketch reads and writes are the fields of a record; every call into a
  collaborator is recorded, in program order, as an event of a trace; what a collaborator
  answers is an input of the model.
\<close>

subsection \<open>Configuration constants (lines 123-133)\<close>

definition accessCode :: string where
  "accessCode = ''''"

definition mqttServer :: string where
  "mqttServer = ''''"

definition mqttClientName :: string where
  "mqttClientName = ''dscKeybusInterface''"

definition mqttPartitionTopic :: string where
  "mqttPartitionTopic = ''dsc/Get/Partition''"

definition mqttZoneTopic :: string where
  "mqttZoneTopic = ''dsc/Get/Zone''"

definition mqttFireTopic :: string where
  "mqttFireTopic = ''dsc/Get/Fire''"

definition mqttSubscribeTopic :: string where
  "mqttSubscribeTopic = ''dsc/Set''"

text \<open>
  Modelled from the spec: \<^verbatim>\<open>dscPartitions\<close> is a constant of the Keybus library header, which
  is not in the source tree; the spec gives partitions 1..N with N = 8, and the sketch's own
  comments count \<^verbatim>\<open>dsc/Get/Partition1 ... dsc/Get/Partition8\<close>.
\<close>

definition dscPartitions :: nat where
  "dscPartitions = 8"

subsection \<open>C library and Arduino core helpers\<close>

text \<open>\<^verbatim>\<open>itoa(value, str, 10)\<close>: the decimal digits of an \<^verbatim>\<open>int\<close>, most significant first.\<close>

definition digit :: "nat \<Rightarrow> char" where
  "digit n = ''0123456789'' ! n"

fun digits10 :: "nat \<Rightarrow> string" where
  "digits10 n = (if n < 10 then [digit n] else digits10 (n div 10) @ [digit (n mod 10)])"

declare digits10.simps [simp del]

definition itoa :: "int \<Rightarrow> string" where
  "itoa v = (if v < 0 then CHR ''-'' # digits10 (nat (- v)) else digits10 (nat v))"

text \<open>
  \<^verbatim>\<open>strlen\<close>, and \<^verbatim>\<open>strcpy\<close> followed by \<^verbatim>\<open>strcat\<close> into a fresh buffer, at the level of the
  strings they denote. Whether the destination buffer is large enough is a separate
  question, taken up in the section on topic buffers.
\<close>

definition strlen :: "string \<Rightarrow> nat" where
  "strlen s = length s"

definition strcat :: "string \<Rightarrow> string \<Rightarrow> string" where
  "strcat dst src = dst @ src"

text \<open>
  The Arduino macros \<^verbatim>\<open>bitRead(value, bit) (((value) >> (bit)) & 0x01)\<close> and
  \<^verbatim>\<open>bitWrite(value, bit, b) (b ? bitSet(value, bit) : bitClear(value, bit))\<close> on a
  \<^verbatim>\<open>byte\<close>; the result of \<^verbatim>\<open>bitRead\<close> is only ever tested for being non-zero.
\<close>

definition bitRead :: "8 word \<Rightarrow> nat \<Rightarrow> bool" where
  "bitRead v b = (drop_bit b v AND 1 \<noteq> 0)"

definition bitWrite :: "8 word \<Rightarrow> nat \<Rightarrow> bool \<Rightarrow> 8 word" where
  "bitWrite v b bitvalue = (if bitvalue then v OR push_bit b 1 else v AND NOT (push_bit b 1))"

text \<open>
  \<^verbatim>\<open>for (byte i = lo; i < hi; i++) body\<close>. Every bound in the sketch is at most 8, so the
  \<^verbatim>\<open>byte\<close> counter never wraps.
\<close>

function for_loop :: "nat \<Rightarrow> nat \<Rightarrow> (nat \<Rightarrow> 's \<Rightarrow> 's) \<Rightarrow> 's \<Rightarrow> 's" where
  "for_loop i n body s = (if i < n then for_loop (i + 1) n body (body i s) else s)"
  by pat_completeness auto
termination
  by (relation "measure (\<lambda>(i, n, body, s). n - i)") auto

declare for_loop.simps [simp del]

subsection \<open>State and events\<close>

text \<open>
  The members of the library object \<^verbatim>\<open>dsc\<close> that the sketch uses. The record is extensible:
  whatever else the library keeps lives in the extension, out of the sketch's reach.
\<close>

record dsc_state =
  statusChanged :: bool
  bufferOverflow :: bool
  accessCodePrompt :: bool
  writeReady :: bool
  partitionArmed :: bool
  exitDelay :: bool
  partitionsArmed :: "bool list"
  partitionsArmedAway :: "bool list"
  partitionsArmedStay :: "bool list"
  partitionsNoEntryDelay :: "bool list"
  partitionsArmedChanged :: "bool list"
  partitionsAlarm :: "bool list"
  partitionsAlarmChanged :: "bool list"
  partitionsFire :: "bool list"
  partitionsFireChanged :: "bool list"
  openZonesStatusChanged :: bool
  openZones :: "8 word list"
  openZonesChanged :: "8 word list"

text \<open>The two overloads of \<^verbatim>\<open>dsc.write\<close>: one keypad character, or a string of keys.\<close>

datatype key = Key char | Keys string

text \<open>
  Calls into the collaborators. A \<open>Publish\<close> carries topic, payload, the retained flag and
  the \<^verbatim>\<open>bool\<close> that \<^verbatim>\<open>mqtt.publish\<close> returned.
\<close>

datatype event =
    Publish string string bool bool
  | Subscribe string
  | Connect string bool
  | PanelWrite key
  | SerialPrint string
  | SerialPrintln string

record 'h world =
  dsc :: "'h dsc_state_scheme"
  trace :: "event list"
  mqttPreviousTime :: "32 word"

text \<open>The broker's answer to a publish may depend on everything that happened before.\<close>

type_synonym broker = "event list \<Rightarrow> string \<Rightarrow> string \<Rightarrow> bool \<Rightarrow> bool"

text \<open>
  Modelled from the spec: \<^verbatim>\<open>PubSubClient::publish\<close>, \<^verbatim>\<open>PubSubClient::subscribe\<close>,
  \<^verbatim>\<open>dscKeybusInterface::write\<close> and \<^verbatim>\<open>Serial.print\<close> are not in the source tree. Each is
  the call it is, appended to the trace; \<^verbatim>\<open>publish(topic, payload)\<close> without a third
  argument is \<^verbatim>\<open>publish(topic, payload, false)\<close>.
\<close>

definition mqtt_publish ::
  "broker \<Rightarrow> string \<Rightarrow> string \<Rightarrow> bool \<Rightarrow> 'h world \<Rightarrow> bool \<times> 'h world" where
  "mqtt_publish br topic payload retained w =
     (let ok = br (trace w) topic payload retained
      in (ok, w\<lparr>trace := trace w @ [Publish topic payload retained ok]\<rparr>))"

definition mqtt_subscribe :: "string \<Rightarrow> 'h world \<Rightarrow> 'h world" where
  "mqtt_subscribe topic w = w\<lparr>trace := trace w @ [Subscribe topic]\<rparr>"

definition dsc_write :: "key \<Rightarrow> 'h world \<Rightarrow> 'h world" where
  "dsc_write k w = w\<lparr>trace := trace w @ [PanelWrite k]\<rparr>"

definition serial_print :: "string \<Rightarrow> 'h world \<Rightarrow> 'h world" where
  "serial_print s w = w\<lparr>trace := trace w @ [SerialPrint s]\<rparr>"

definition serial_println :: "string \<Rightarrow> 'h world \<Rightarrow> 'h world" where
  "serial_println s w = w\<lparr>trace := trace w @ [SerialPrintln s]\<rparr>"

text \<open>What a run added to the trace, and its projections.\<close>

definition emitted :: "'h world \<Rightarrow> 'h world \<Rightarrow> event list" where
  "emitted w w' = drop (length (trace w)) (trace w')"

fun published :: "event list \<Rightarrow> (string \<times> string \<times> bool) list" where
  "published [] = []"
| "published (Publish topic payload retained ok # es) = (topic, payload, retained) # published es"
| "published (e # es) = published es"

fun writes :: "event list \<Rightarrow> key list" where
  "writes [] = []"
| "writes (PanelWrite k # es) = k # writes es"
| "writes (e # es) = writes es"

fun connects :: "event list \<Rightarrow> string list" where
  "connects [] = []"
| "connects (Connect name ok # es) = name # connects es"
| "connects (e # es) = connects es"

subsection \<open>mqttCallback (lines 273-302)\<close>




subsection \<open>mqttConnect and mqttHandle (lines 305-332)\<close>

text \<open>
  What the outside answers during one call of \<^verbatim>\<open>mqttHandle\<close>: \<^verbatim>\<open>mqtt.connected()\<close> at line
  306, \<^verbatim>\<open>millis()\<close> (an \<^verbatim>\<open>unsigned long\<close>, 32 bits on the esp8266 and on AVR),
  \<^verbatim>\<open>mqtt.connect(mqttClientName)\<close> at line 322 and \<^verbatim>\<open>mqtt.connected()\<close> at line 331.
\<close>

record mqtt_env =
  connected_before :: bool
  millis :: "32 word"
  connect_result :: bool
  connected_after :: bool

definition mqttConnect :: "mqtt_env \<Rightarrow> 'h world \<Rightarrow> bool \<times> 'h world" where
  "mqttConnect env w =
     (let w1 = w\<lparr>trace := trace w @ [Connect mqttClientName (connect_result env)]\<rparr>;
          w2 = (if connect_result env then
                  mqtt_subscribe mqttSubscribeTopic
                    (serial_println mqttServer (serial_print ''MQTT connected: '' w1))
                else serial_println mqttServer (serial_print ''MQTT connection failed: '' w1))
      in (connected_after env, w2))"

text \<open>
  \<^verbatim>\<open>mqtt.loop()\<close> is a parameter: the client's event loop, which may run \<^verbatim>\<open>mqttCallback\<close>
  and so may never return.
\<close>

definition mqttHandle ::
  "mqtt_env \<Rightarrow> ('h world \<Rightarrow> 'h world option) \<Rightarrow> 'h world \<Rightarrow> 'h world option" where
  "mqttHandle env mqtt_loop w =
     (if \<not> connected_before env then
        (let mqttCurrentTime = millis env in
         if mqttCurrentTime - mqttPreviousTime w > 5000 then
           (let w1 = w\<lparr>mqttPreviousTime := mqttCurrentTime\<rparr>;
                (ok, w2) = mqttConnect env w1
            in if ok then
                 Some ((serial_println ''MQTT disconnected, successfully reconnected.'' w2)
                         \<lparr>mqttPreviousTime := 0\<rparr>)
               else Some (serial_println ''MQTT disconnected, failed to reconnect.'' w2))
         else Some w)
      else mqtt_loop w)"

subsection \<open>The status translation of loop (lines 172-268)\<close>

text \<open>
  Lines 193-197, 213-217, 227-231 and 252-256: the base topic with the decimal number
  appended, as the string that \<^verbatim>\<open>strcpy\<close>, \<^verbatim>\<open>itoa\<close> and \<^verbatim>\<open>strcat\<close> build.
\<close>

definition partitionPublishTopic :: "nat \<Rightarrow> string" where
  "partitionPublishTopic partitionIndex =
     strcat mqttPartitionTopic (itoa (int partitionIndex + 1))"

definition firePublishTopic :: "nat \<Rightarrow> string" where
  "firePublishTopic partitionIndex = strcat mqttFireTopic (itoa (int partitionIndex + 1))"

definition zonePublishTopic :: "nat \<Rightarrow> nat \<Rightarrow> string" where
  "zonePublishTopic zoneGroup zoneBit =
     strcat mqttZoneTopic (itoa (int zoneBit + 1 + int zoneGroup * 8))"

text \<open>Lines 189-206: the armed status of one partition.\<close>

definition publishArmed :: "broker \<Rightarrow> nat \<Rightarrow> 'h world \<Rightarrow> 'h world" where
  "publishArmed br partitionIndex w =
     (if partitionsArmedChanged (dsc w) ! partitionIndex then
        (let w1 = w\<lparr>dsc := (dsc w)\<lparr>partitionsArmedChanged :=
                     (partitionsArmedChanged (dsc w))[partitionIndex := False]\<rparr>\<rparr>;
             topic = partitionPublishTopic partitionIndex
         in if partitionsArmed (dsc w1) ! partitionIndex then
              (if partitionsArmedAway (dsc w1) ! partitionIndex
                    \<and> partitionsNoEntryDelay (dsc w1) ! partitionIndex then
                 snd (mqtt_publish br topic ''NA'' True w1)
               else if partitionsArmedAway (dsc w1) ! partitionIndex then
                 snd (mqtt_publish br topic ''AA'' True w1)
               else if partitionsArmedStay (dsc w1) ! partitionIndex
                    \<and> partitionsNoEntryDelay (dsc w1) ! partitionIndex then
                 snd (mqtt_publish br topic ''NA'' True w1)
               else if partitionsArmedStay (dsc w1) ! partitionIndex then
                 snd (mqtt_publish br topic ''SA'' True w1)
               else w1)
            else snd (mqtt_publish br topic ''D'' True w1))
      else w)"

text \<open>Lines 208-221: the alarm status of one partition.\<close>

definition publishAlarm :: "broker \<Rightarrow> nat \<Rightarrow> 'h world \<Rightarrow> 'h world" where
  "publishAlarm br partitionIndex w =
     (if partitionsAlarmChanged (dsc w) ! partitionIndex then
        (let w1 = w\<lparr>dsc := (dsc w)\<lparr>partitionsAlarmChanged :=
                     (partitionsAlarmChanged (dsc w))[partitionIndex := False]\<rparr>\<rparr>
         in if partitionsAlarm (dsc w1) ! partitionIndex then
              snd (mqtt_publish br (partitionPublishTopic partitionIndex) ''T'' True w1)
            else w1)
      else w)"

text \<open>Lines 223-235: the fire status of one partition.\<close>

definition publishFire :: "broker \<Rightarrow> nat \<Rightarrow> 'h world \<Rightarrow> 'h world" where
  "publishFire br partitionIndex w =
     (if partitionsFireChanged (dsc w) ! partitionIndex then
        (let w1 = w\<lparr>dsc := (dsc w)\<lparr>partitionsFireChanged :=
                     (partitionsFireChanged (dsc w))[partitionIndex := False]\<rparr>\<rparr>;
             topic = firePublishTopic partitionIndex
         in if partitionsFire (dsc w1) ! partitionIndex then
              snd (mqtt_publish br topic ''1'' False w1)
            else snd (mqtt_publish br topic ''0'' False w1))
      else w)"

text \<open>Lines 187-236: the body of the loop over the partitions.\<close>

definition publishPartition :: "broker \<Rightarrow> nat \<Rightarrow> 'h world \<Rightarrow> 'h world" where
  "publishPartition br partitionIndex w =
     publishFire br partitionIndex
       (publishAlarm br partitionIndex (publishArmed br partitionIndex w))"

text \<open>Lines 248-262: one zone, the body of the inner loop.\<close>

definition publishZone :: "broker \<Rightarrow> nat \<Rightarrow> nat \<Rightarrow> 'h world \<Rightarrow> 'h world" where
  "publishZone br zoneGroup zoneBit w =
     (if bitRead (openZonesChanged (dsc w) ! zoneGroup) zoneBit then
        (let w1 = w\<lparr>dsc := (dsc w)\<lparr>openZonesChanged :=
                     (openZonesChanged (dsc w))
                       [zoneGroup := bitWrite (openZonesChanged (dsc w) ! zoneGroup) zoneBit False]\<rparr>\<rparr>;
             topic = zonePublishTopic zoneGroup zoneBit
         in if bitRead (openZones (dsc w1) ! zoneGroup) zoneBit then
              snd (mqtt_publish br topic ''1'' True w1)
            else snd (mqtt_publish br topic ''0'' True w1))
      else w)"

text \<open>Lines 244-265: the zone scan behind its flag.\<close>

definition publishZones :: "broker \<Rightarrow> 'h world \<Rightarrow> 'h world" where
  "publishZones br w =
     (if openZonesStatusChanged (dsc w) then
        for_loop 0 8 (\<lambda>zoneGroup. for_loop 0 8 (\<lambda>zoneBit. publishZone br zoneGroup zoneBit))
          (w\<lparr>dsc := (dsc w)\<lparr>openZonesStatusChanged := False\<rparr>\<rparr>)
      else w)"

text \<open>
  Lines 173-267: what \<^verbatim>\<open>loop\<close> does once \<^verbatim>\<open>dsc.handlePanel() && dsc.statusChanged\<close> holds.
\<close>

definition processStatus :: "broker \<Rightarrow> 'h world \<Rightarrow> 'h world" where
  "processStatus br w =
     (let w1 = w\<lparr>dsc := (dsc w)\<lparr>statusChanged := False\<rparr>\<rparr>;
          w2 = (if bufferOverflow (dsc w1) then serial_println ''Keybus buffer overflow'' w1
                else w1);
          w3 = w2\<lparr>dsc := (dsc w2)\<lparr>bufferOverflow := False\<rparr>\<rparr>;
          w4 = (if accessCodePrompt (dsc w3) \<and> writeReady (dsc w3) then
                  dsc_write (Keys accessCode) (w3\<lparr>dsc := (dsc w3)\<lparr>accessCodePrompt := False\<rparr>\<rparr>)
                else w3);
          w5 = for_loop 0 dscPartitions (publishPartition br) w4;
          w6 = publishZones br w5
      in mqtt_subscribe mqttSubscribeTopic w6)"

text \<open>Lines 169-269. The library's \<^verbatim>\<open>handlePanel\<close> is called once, whatever it returns.\<close>

definition loop ::
  "mqtt_env \<Rightarrow> ('h world \<Rightarrow> 'h world option)
    \<Rightarrow> ('h dsc_state_scheme \<Rightarrow> bool \<times> 'h dsc_state_scheme) \<Rightarrow> broker
    \<Rightarrow> 'h world \<Rightarrow> 'h world option" where
  "loop env mqtt_loop handlePanel br w =
     do { w1 \<leftarrow> mqttHandle env mqtt_loop w;
          let (valid, d) = handlePanel (dsc w1);
          let w2 = w1\<lparr>dsc := d\<rparr>;
          if valid \<and> statusChanged d then Some (processStatus br w2) else Some w2 }"

text \<open>
  The arrays of the library object have their declared sizes: one entry per partition, and
  eight bytes of zone bits.
\<close>

definition dsc_arrays :: "'h dsc_state_scheme \<Rightarrow> bool" where
  "dsc_arrays d =
     (length (partitionsArmed d) = dscPartitions \<and>
      length (partitionsArmedAway d) = dscPartitions \<and>
      length (partitionsArmedStay d) = dscPartitions \<and>
      length (partitionsNoEntryDelay d) = dscPartitions \<and>
      length (partitionsArmedChanged d) = dscPartitions \<and>
      length (partitionsAlarm d) = dscPartitions \<and>
      length (partitionsAlarmChanged d) = dscPartitions \<and>
      length (partitionsFire d) = dscPartitions \<and>
      length (partitionsFireChanged d) = dscPartitions \<and>
      length (openZones d) = 8 \<and>
      length (openZonesChanged d) = 8)"

subsection \<open>The topic buffers (lines 193-197, 227-231, 252-256)\<close>

text \<open>
  The same three statements on buffers of the declared sizes: a copy that needs more bytes
  than the destination has, terminator included, is an overflow.
\<close>

datatype c_error = BufferOverflow

definition strcpy_into :: "nat \<Rightarrow> string \<Rightarrow> c_error + string" where
  "strcpy_into cap src = (if strlen src + 1 \<le> cap then Inr src else Inl BufferOverflow)"

definition strcat_into :: "nat \<Rightarrow> string \<Rightarrow> string \<Rightarrow> c_error + string" where
  "strcat_into cap dst src =
     (if strlen dst + strlen src + 1 \<le> cap then Inr (strcat dst src) else Inl BufferOverflow)"

definition itoa_into :: "nat \<Rightarrow> int \<Rightarrow> c_error + string" where
  "itoa_into cap v = (if strlen (itoa v) + 1 \<le> cap then Inr (itoa v) else Inl BufferOverflow)"

definition topic_buffer :: "nat \<Rightarrow> nat \<Rightarrow> string \<Rightarrow> int \<Rightarrow> c_error + string" where
  "topic_buffer cap number_cap base v =
     (case strcpy_into cap base of
        Inl e \<Rightarrow> Inl e
      | Inr topic \<Rightarrow>
          (case itoa_into number_cap v of
             Inl e \<Rightarrow> Inl e
           | Inr number \<Rightarrow> strcat_into cap topic number))"

text \<open>\<^verbatim>\<open>char partitionPublishTopic[strlen(mqttPartitionTopic) + 1]; char partition[2];\<close>\<close>

definition partitionPublishTopic_buffer :: "nat \<Rightarrow> c_error + string" where
  "partitionPublishTopic_buffer partitionIndex =
     topic_buffer (strlen mqttPartitionTopic + 1) 2 mqttPartitionTopic (int partitionIndex + 1)"

text \<open>\<^verbatim>\<open>char firePublishTopic[strlen(mqttFireTopic) + 1]; char partition[2];\<close>\<close>

definition firePublishTopic_buffer :: "nat \<Rightarrow> c_error + string" where
  "firePublishTopic_buffer partitionIndex =
     topic_buffer (strlen mqttFireTopic + 1) 2 mqttFireTopic (int partitionIndex + 1)"

text \<open>\<^verbatim>\<open>char zonePublishTopic[strlen(mqttZoneTopic) + 2]; char zone[3];\<close>\<close>

definition zonePublishTopic_buffer :: "nat \<Rightarrow> nat \<Rightarrow> c_error + string" where
  "zonePublishTopic_buffer zoneGroup zoneBit =
     topic_buffer (strlen mqttZoneTopic + 2) 3 mqttZoneTopic
       (int zoneBit + 1 + int zoneGroup * 8)"

subsection \<open>The translation as a function of the panel state\<close>

text \<open>
  For the proofs: what each block publishes, as (topic, payload, retained) triples read off
  the state before the block runs, and which flags it clears. The lemmas of the section on
  the status translator relate the blocks above to these.
\<close>

definition armedMessages :: "'h dsc_state_scheme \<Rightarrow> nat \<Rightarrow> (string \<times> string \<times> bool) list" where
  "armedMessages d i =
     (if partitionsArmedChanged d ! i then
        (if partitionsArmed d ! i then
           (if partitionsArmedAway d ! i \<and> partitionsNoEntryDelay d ! i then
              [(partitionPublishTopic i, ''NA'', True)]
            else if partitionsArmedAway d ! i then [(partitionPublishTopic i, ''AA'', True)]
            else if partitionsArmedStay d ! i \<and> partitionsNoEntryDelay d ! i then
              [(partitionPublishTopic i, ''NA'', True)]
            else if partitionsArmedStay d ! i then [(partitionPublishTopic i, ''SA'', True)]
            else [])
         else [(partitionPublishTopic i, ''D'', True)])
      else [])"

definition alarmMessages :: "'h dsc_state_scheme \<Rightarrow> nat \<Rightarrow> (string \<times> string \<times> bool) list" where
  "alarmMessages d i =
     (if partitionsAlarmChanged d ! i \<and> partitionsAlarm d ! i then
        [(partitionPublishTopic i, ''T'', True)]
      else [])"

definition fireMessages :: "'h dsc_state_scheme \<Rightarrow> nat \<Rightarrow> (string \<times> string \<times> bool) list" where
  "fireMessages d i =
     (if partitionsFireChanged d ! i then
        [(firePublishTopic i, if partitionsFire d ! i then ''1'' else ''0'', False)]
      else [])"

definition partitionMessages ::
  "'h dsc_state_scheme \<Rightarrow> nat \<Rightarrow> (string \<times> string \<times> bool) list" where
  "partitionMessages d i = armedMessages d i @ alarmMessages d i @ fireMessages d i"

definition zoneMessages ::
  "'h dsc_state_scheme \<Rightarrow> nat \<Rightarrow> nat \<Rightarrow> (string \<times> string \<times> bool) list" where
  "zoneMessages d g b =
     (if bitRead (openZonesChanged d ! g) b then
        [(zonePublishTopic g b, if bitRead (openZones d ! g) b then ''1'' else ''0'', True)]
      else [])"

definition groupMessages :: "'h dsc_state_scheme \<Rightarrow> nat \<Rightarrow> (string \<times> string \<times> bool) list" where
  "groupMessages d g = concat (map (zoneMessages d g) [0..<8])"

definition clearPartition :: "nat \<Rightarrow> 'h dsc_state_scheme \<Rightarrow> 'h dsc_state_scheme" where
  "clearPartition i d =
     d\<lparr>partitionsArmedChanged := (partitionsArmedChanged d)[i := False],
       partitionsAlarmChanged := (partitionsAlarmChanged d)[i := False],
       partitionsFireChanged := (partitionsFireChanged d)[i := False]\<rparr>"

definition clearZone :: "nat \<Rightarrow> nat \<Rightarrow> 'h dsc_state_scheme \<Rightarrow> 'h dsc_state_scheme" where
  "clearZone g b d =
     d\<lparr>openZonesChanged := (openZonesChanged d)[g := bitWrite (openZonesChanged d ! g) b False]\<rparr>"

text \<open>
  The spec's numbering of the zones: zone \<open>z\<close> of 1..64 is bit \<open>(z - 1) mod 8\<close> of group
  \<open>(z - 1) div 8\<close>, and its topic is the zone base topic followed by \<open>z\<close> in decimal.
\<close>

definition zoneChanged :: "'h dsc_state_scheme \<Rightarrow> nat \<Rightarrow> bool" where
  "zoneChanged d z = bitRead (openZonesChanged d ! ((z - 1) div 8)) ((z - 1) mod 8)"

definition zoneOpen :: "'h dsc_state_scheme \<Rightarrow> nat \<Rightarrow> bool" where
  "zoneOpen d z = bitRead (openZones d ! ((z - 1) div 8)) ((z - 1) mod 8)"

definition zoneMessage :: "'h dsc_state_scheme \<Rightarrow> nat \<Rightarrow> string \<times> string \<times> bool" where
  "zoneMessage d z =
     (strcat mqttZoneTopic (itoa (int z)), if zoneOpen d z then ''1'' else ''0'', True)"

subsection \<open>A panel at rest\<close>

text \<open>
  A concrete state for evaluating the sketch: eight disarmed partitions, all zones closed,
  no change pending, the write channel ready.
\<close>

definition idle_panel :: dsc_state where
  "idle_panel =
     \<lparr>statusChanged = False, bufferOverflow = False, accessCodePrompt = False,
      writeReady = True, partitionArmed = False, exitDelay = False,
      partitionsArmed = replicate 8 False, partitionsArmedAway = replicate 8 False,
      partitionsArmedStay = replicate 8 False, partitionsNoEntryDelay = replicate 8 False,
      partitionsArmedChanged = replicate 8 False, partitionsAlarm = replicate 8 False,
      partitionsAlarmChanged = replicate 8 False, partitionsFire = replicate 8 False,
      partitionsFireChanged = replicate 8 False, openZonesStatusChanged = False,
      openZones = replicate 8 0, openZonesChanged = replicate 8 0\<rparr>"

definition idle_world :: "unit world" where
  "idle_world = \<lparr>dsc = idle_panel, trace = [], mqttPreviousTime = 0\<rparr>"

subsection \<open>A broker that always answers the same, and a busy panel\<close>

definition always :: "bool \<Rightarrow> broker" where
  "always ok tr topic payload retained = ok"

text \<open>
  A second concrete state, with something pending of every kind: partition 1 armed away,
  partition 2 in alarm, partition 3 on fire, partition 4 armed with neither the away nor the
  stay flag, zone 10 open (bit 1 of group 1), and the panel asking for the access code.
\<close>

definition busy_panel :: dsc_state where
  "busy_panel =
     \<lparr>statusChanged = True, bufferOverflow = False, accessCodePrompt = True,
      writeReady = True, partitionArmed = True, exitDelay = False,
      partitionsArmed = [True, False, False, True, False, False, False, False],
      partitionsArmedAway = [True, False, False, False, False, False, False, False],
      partitionsArmedStay = replicate 8 False,
      partitionsNoEntryDelay = replicate 8 False,
      partitionsArmedChanged = [True, False, False, True, False, False, False, False],
      partitionsAlarm = [False, True, False, False, False, False, False, False],
      partitionsAlarmChanged = [False, True, False, False, False, False, False, False],
      partitionsFire = [False, False, True, False, False, False, False, False],
      partitionsFireChanged = [False, False, True, False, False, False, False, False],
      openZonesStatusChanged = True,
      openZones = [0, 2, 0, 0, 0, 0, 0, 0],
      openZonesChanged = [0, 2, 0, 0, 0, 0, 0, 0]\<rparr>"

definition busy_world :: "unit world" where
  "busy_world = \<lparr>dsc = busy_panel, trace = [], mqttPreviousTime = 0\<rparr>"

section \<open>The command gate\<close>

subsection \<open>Waiting for the write channel\<close>







subsection \<open>Accepted and rejected commands\<close>




section \<open>The connection supervisor\<close>

lemma mqttHandle_attempt:
  assumes "\<not> connected_before env" "millis env - mqttPreviousTime w > 5000"
  shows "\<exists>w'. mqttHandle env mqtt_loop w = Some w'
      \<and> connects (emitted w w') = [mqttClientName]
      \<and> dsc w' = dsc w
      \<and> mqttPreviousTime w' = (if connected_after env then 0 else millis env)"
  using assms
  by (simp add: mqttHandle_def mqttConnect_def Let_def emitted_def mqtt_subscribe_def
      serial_print_def serial_println_def)

lemma mqttHandle_wait:
  assumes "\<not> connected_before env" "millis env - mqttPreviousTime w \<le> 5000"
  shows "mqttHandle env mqtt_loop w = Some w"
proof -
  have "\<not> 5000 < millis env - mqttPreviousTime w" using assms(2) by (rule leD)
  with assms(1) show ?thesis by (simp add: mqttHandle_def Let_def)
qed

text \<open>
  C8, as the code has it. While the client is disconnected, a call of \<^verbatim>\<open>mqttHandle\<close> whose
  clock is at most 5000 ms past \<^verbatim>\<open>mqttPreviousTime\<close> (in 32-bit unsigned arithmetic) attempts
  nothing and changes nothing; a call more than 5000 ms past it makes exactly one connection
  attempt. After an attempt that leaves the client disconnected, \<^verbatim>\<open>mqttPreviousTime\<close> is the
  time of that attempt, so no further attempt is made until more than 5000 ms later.
\<close>

theorem mqttHandle_reconnect:
  "\<not> connected_before env \<longrightarrow>
     (millis env - mqttPreviousTime w \<le> 5000 \<longrightarrow> mqttHandle env mqtt_loop w = Some w)
   \<and> (millis env - mqttPreviousTime w > 5000 \<longrightarrow>
        (\<exists>w'. mqttHandle env mqtt_loop w = Some w'
           \<and> connects (emitted w w') = [mqttClientName]
           \<and> (\<not> connected_after env \<longrightarrow>
                mqttPreviousTime w' = millis env
                \<and> (\<forall>env' mqtt_loop'. \<not> connected_before env' \<and> millis env' - millis env \<le> 5000
                      \<longrightarrow> mqttHandle env' mqtt_loop' w' = Some w'))))"
proof (intro impI conjI)
  assume "\<not> connected_before env" "millis env - mqttPreviousTime w \<le> 5000"
  then show "mqttHandle env mqtt_loop w = Some w" by (rule mqttHandle_wait)
next
  assume a: "\<not> connected_before env" "5000 < millis env - mqttPreviousTime w"
  from mqttHandle_attempt [OF a, of mqtt_loop] obtain w' where
    w': "mqttHandle env mqtt_loop w = Some w'" "connects (emitted w w') = [mqttClientName]"
      "mqttPreviousTime w' = (if connected_after env then 0 else millis env)"
    by blast
  have "mqttHandle env' mqtt_loop' w' = Some w'"
    if "\<not> connected_after env" "\<not> connected_before env'" "millis env' - millis env \<le> 5000"
    for env' mqtt_loop'
    using that w'(3) by (intro mqttHandle_wait) simp_all
  with w' show "\<exists>w'. mqttHandle env mqtt_loop w = Some w'
           \<and> connects (emitted w w') = [mqttClientName]
           \<and> (\<not> connected_after env \<longrightarrow>
                mqttPreviousTime w' = millis env
                \<and> (\<forall>env' mqtt_loop'. \<not> connected_before env' \<and> millis env' - millis env \<le> 5000
                      \<longrightarrow> mqttHandle env' mqtt_loop' w' = Some w'))"
    by auto
qed

text \<open>
  On concrete clocks, starting from \<^verbatim>\<open>mqttPreviousTime = 0\<close>: nothing at 4000 ms, one failed
  attempt at 5001 ms, and nothing again at 10001 ms.
\<close>

theorem mqttHandle_reconnect_witness:
  "mqttHandle \<lparr>connected_before = False, millis = 4000, connect_result = False,
       connected_after = False\<rparr> Some idle_world = Some idle_world
   \<and> (\<exists>w'. mqttHandle \<lparr>connected_before = False, millis = 5001, connect_result = False,
            connected_after = False\<rparr> Some idle_world = Some w'
         \<and> connects (emitted idle_world w') = [mqttClientName]
         \<and> mqttPreviousTime w' = 5001
         \<and> mqttHandle \<lparr>connected_before = False, millis = 10001, connect_result = False,
              connected_after = False\<rparr> Some w' = Some w')"
proof -
  have a: "mqttPreviousTime idle_world = 0" by (simp add: idle_world_def)
  show ?thesis
    using mqttHandle_reconnect [of "\<lparr>connected_before = False, millis = 4000,
          connect_result = False, connected_after = False\<rparr>" idle_world Some]
      mqttHandle_reconnect [of "\<lparr>connected_before = False, millis = 5001,
          connect_result = False, connected_after = False\<rparr>" idle_world Some]
    by (auto simp: a)
qed

text \<open>
  The comparison is strict: at exactly 5000 ms the supervisor does not attempt to reconnect.
\<close>

theorem mqttHandle_no_attempt_at_5000:
  "\<not> connected_before \<lparr>connected_before = False, millis = 5000, connect_result = True,
        connected_after = True\<rparr>
   \<and> millis \<lparr>connected_before = False, millis = 5000, connect_result = True,
        connected_after = True\<rparr> - mqttPreviousTime idle_world = 5000
   \<and> mqttHandle \<lparr>connected_before = False, millis = 5000, connect_result = True,
        connected_after = True\<rparr> Some idle_world = Some idle_world
   \<and> connects (emitted idle_world idle_world) = []"
  by (simp add: mqttHandle_def idle_world_def emitted_def)

section \<open>Numbers, topics and loops\<close>

lemma digits10_nonempty: "digits10 n \<noteq> []"
  by (subst digits10.simps) simp

lemma of_char_digit: "n < 10 \<Longrightarrow> (of_char (digit n) :: nat) = 48 + n"
proof -
  assume "n < 10"
  then have "n \<in> {0, 1, 2, 3, 4, 5, 6, 7, 8, 9}" by auto
  then show ?thesis by (auto simp: digit_def)
qed

lemma digit_inj: "a < 10 \<Longrightarrow> b < 10 \<Longrightarrow> digit a = digit b \<Longrightarrow> a = b"
proof -
  assume a: "a < 10" and b: "b < 10" and e: "digit a = digit b"
  from e have "(of_char (digit a) :: nat) = of_char (digit b)" by (rule arg_cong)
  with of_char_digit [OF a] of_char_digit [OF b] show "a = b" by linarith
qed

lemma digits10_inj: "digits10 a = digits10 b \<Longrightarrow> a = b"
proof (induction a arbitrary: b rule: digits10.induct)
  case (1 a)
  show ?case
  proof (cases "a < 10")
    case True
    with "1.prems" have e: "[digit a] = digits10 b" by (subst (asm) digits10.simps) simp
    show ?thesis
    proof (cases "b < 10")
      case True
      with e have "digit a = digit b" by (subst (asm) digits10.simps) simp
      with \<open>a < 10\<close> True show ?thesis by (rule digit_inj)
    next
      case False
      with e have "[digit a] = digits10 (b div 10) @ [digit (b mod 10)]"
        by (subst (asm) digits10.simps) simp
      then show ?thesis using digits10_nonempty [of "b div 10"] by simp
    qed
  next
    case False
    with "1.prems" have e: "digits10 (a div 10) @ [digit (a mod 10)] = digits10 b"
      by (subst (asm) digits10.simps) simp
    show ?thesis
    proof (cases "b < 10")
      case True
      with e have "digits10 (a div 10) @ [digit (a mod 10)] = [digit b]"
        by (subst (asm) (2) digits10.simps) simp
      then show ?thesis using digits10_nonempty [of "a div 10"] by simp
    next
      case b: False
      with e have "digits10 (a div 10) @ [digit (a mod 10)]
          = digits10 (b div 10) @ [digit (b mod 10)]"
        by (subst (asm) (2) digits10.simps) simp
      then have d: "digits10 (a div 10) = digits10 (b div 10)"
        and m: "digit (a mod 10) = digit (b mod 10)" by simp_all
      from "1.IH" [OF False d] have "a div 10 = b div 10" .
      moreover from m have "a mod 10 = b mod 10" by (intro digit_inj) simp_all
      ultimately show ?thesis by (metis div_mult_mod_eq)
    qed
  qed
qed

lemma itoa_Suc: "itoa (int i + 1) = digits10 (Suc i)"
  by (simp add: itoa_def nat_add_distrib)

lemma itoa_zone: "itoa (int b + 1 + int g * 8) = digits10 (b + 1 + g * 8)"
  by (simp add: itoa_def nat_add_distrib nat_mult_distrib)

lemma partitionPublishTopic_inj [simp]:
  "partitionPublishTopic i = partitionPublishTopic j \<longleftrightarrow> i = j"
  by (auto simp: partitionPublishTopic_def strcat_def itoa_Suc dest: digits10_inj)

lemma firePublishTopic_inj [simp]: "firePublishTopic i = firePublishTopic j \<longleftrightarrow> i = j"
  by (auto simp: firePublishTopic_def strcat_def itoa_Suc dest: digits10_inj)

lemma topics_apart [simp]:
  "partitionPublishTopic i \<noteq> firePublishTopic j"
  "firePublishTopic j \<noteq> partitionPublishTopic i"
  "partitionPublishTopic i \<noteq> zonePublishTopic g b"
  "zonePublishTopic g b \<noteq> partitionPublishTopic i"
  "firePublishTopic i \<noteq> zonePublishTopic g b"
  "zonePublishTopic g b \<noteq> firePublishTopic i"
  by (simp_all add: partitionPublishTopic_def firePublishTopic_def zonePublishTopic_def
      strcat_def mqttPartitionTopic_def mqttFireTopic_def mqttZoneTopic_def)

lemma bitRead_bit: "bitRead v b = bit v b"
  by (simp add: bitRead_def bit_iff_odd_drop_bit and_one_eq odd_iff_mod_2_eq_one)

lemma bitWrite_clear: "bitWrite v b False = unset_bit b v"
  by (simp add: bitWrite_def unset_bit_eq_and_not) 

lemma for_loop_fold: "for_loop i n body s = fold body [i..<n] s"
proof (induction i n body s rule: for_loop.induct)
  case (1 i n body s)
  show ?case
  proof (cases "i < n")
    case True
    with 1 show ?thesis by (subst for_loop.simps) (simp add: upt_conv_Cons)
  next
    case False
    then show ?thesis by (subst for_loop.simps) simp
  qed
qed

section \<open>The topic buffers\<close>

text \<open>
  C10 asks that base topic, decimal number and terminator fit the declared buffer. They do
  not: \<^verbatim>\<open>strcpy\<close> alone fills a buffer of \<^verbatim>\<open>strlen(base) + 1\<close> bytes, so appending even
  one digit writes one byte past the end of the partition and fire buffers, for every
  partition; the zone buffer of \<^verbatim>\<open>strlen(base) + 2\<close> bytes holds zones 1 to 9 and overflows
  from zone 10 on. At partition 1 the topic needs 19 bytes and the buffer has 18.
\<close>

theorem topic_buffers_too_small:
  "partitionPublishTopic_buffer partitionIndex = Inl BufferOverflow
   \<and> firePublishTopic_buffer partitionIndex = Inl BufferOverflow
   \<and> strlen (partitionPublishTopic 0) + 1 = 19 \<and> strlen mqttPartitionTopic + 1 = 18
   \<and> partitionPublishTopic_buffer 0 = Inl BufferOverflow
   \<and> strlen (firePublishTopic 0) + 1 = 14 \<and> strlen mqttFireTopic + 1 = 13
   \<and> firePublishTopic_buffer 0 = Inl BufferOverflow
   \<and> strlen (zonePublishTopic 1 1) + 1 = 15 \<and> strlen mqttZoneTopic + 2 = 14
   \<and> zonePublishTopic_buffer 1 1 = Inl BufferOverflow
   \<and> zonePublishTopic_buffer 0 0 = Inr ''dsc/Get/Zone1''"
proof -
  have n: "0 < length (digits10 n)" for n using digits10_nonempty [of n] by simp
  have a: "partitionPublishTopic_buffer partitionIndex = Inl BufferOverflow" for partitionIndex
    using n [of "Suc partitionIndex"]
    by (simp add: partitionPublishTopic_buffer_def topic_buffer_def strcpy_into_def
        itoa_into_def strcat_into_def strlen_def itoa_Suc)
  have b: "firePublishTopic_buffer partitionIndex = Inl BufferOverflow" for partitionIndex
    using n [of "Suc partitionIndex"]
    by (simp add: firePublishTopic_buffer_def topic_buffer_def strcpy_into_def
        itoa_into_def strcat_into_def strlen_def itoa_Suc)
  have c: "digits10 (Suc 0) = ''1''" "digits10 10 = ''10''"
    by (simp_all add: digits10.simps digit_def)
  show ?thesis
    using a [of partitionIndex] b [of partitionIndex] a [of 0] b [of 0]
    by (simp add: c partitionPublishTopic_def firePublishTopic_def zonePublishTopic_def
        zonePublishTopic_buffer_def topic_buffer_def strcpy_into_def
        itoa_into_def strcat_into_def strlen_def strcat_def itoa_def
        mqttPartitionTopic_def mqttFireTopic_def mqttZoneTopic_def)
qed

section \<open>The status translator\<close>

subsection \<open>Traces\<close>

lemma published_append: "published (xs @ ys) = published xs @ published ys"
  by (induction xs rule: published.induct) simp_all

lemma writes_append: "writes (xs @ ys) = writes xs @ writes ys"
  by (induction xs rule: writes.induct) simp_all

lemma emitted_self: "emitted w w = []"
  by (simp add: emitted_def)

lemma emitted_trans:
  "trace w1 = trace w @ emitted w w1 \<Longrightarrow> trace w2 = trace w1 @ emitted w1 w2 \<Longrightarrow>
   emitted w w2 = emitted w w1 @ emitted w1 w2"
  by (metis append_assoc append_eq_conv_conj emitted_def)

lemma extends_trans:
  "trace w1 = trace w @ emitted w w1 \<Longrightarrow> trace w2 = trace w1 @ emitted w1 w2 \<Longrightarrow>
   trace w2 = trace w @ emitted w w2"
  by (metis append_assoc emitted_trans)

lemma list_update_False: "\<not> xs ! i \<Longrightarrow> xs[i := False] = xs"
  by (metis list_update_id)

lemma publishArmed_sound:
  "trace (publishArmed br i w) = trace w @ emitted w (publishArmed br i w)"
  "published (emitted w (publishArmed br i w)) = armedMessages (dsc w) i"
  "writes (emitted w (publishArmed br i w)) = []"
  "dsc (publishArmed br i w)
     = (dsc w)\<lparr>partitionsArmedChanged := (partitionsArmedChanged (dsc w))[i := False]\<rparr>"
  by (simp_all add: publishArmed_def armedMessages_def mqtt_publish_def Let_def emitted_def
      list_update_False)

lemma publishAlarm_sound:
  "trace (publishAlarm br i w) = trace w @ emitted w (publishAlarm br i w)"
  "published (emitted w (publishAlarm br i w)) = alarmMessages (dsc w) i"
  "writes (emitted w (publishAlarm br i w)) = []"
  "dsc (publishAlarm br i w)
     = (dsc w)\<lparr>partitionsAlarmChanged := (partitionsAlarmChanged (dsc w))[i := False]\<rparr>"
  by (simp_all add: publishAlarm_def alarmMessages_def mqtt_publish_def Let_def emitted_def
      list_update_False)

lemma publishFire_sound:
  "trace (publishFire br i w) = trace w @ emitted w (publishFire br i w)"
  "published (emitted w (publishFire br i w)) = fireMessages (dsc w) i"
  "writes (emitted w (publishFire br i w)) = []"
  "dsc (publishFire br i w)
     = (dsc w)\<lparr>partitionsFireChanged := (partitionsFireChanged (dsc w))[i := False]\<rparr>"
  by (simp_all add: publishFire_def fireMessages_def mqtt_publish_def Let_def emitted_def
      list_update_False)

lemma publishPartition_sound:
  "trace (publishPartition br i w) = trace w @ emitted w (publishPartition br i w)"
  "published (emitted w (publishPartition br i w)) = partitionMessages (dsc w) i"
  "writes (emitted w (publishPartition br i w)) = []"
  "dsc (publishPartition br i w) = clearPartition i (dsc w)"
proof -
  define w1 where "w1 = publishArmed br i w"
  define w2 where "w2 = publishAlarm br i w1"
  have w3: "publishPartition br i w = publishFire br i w2"
    by (simp add: publishPartition_def w1_def w2_def)
  have t1: "trace w1 = trace w @ emitted w w1"
    unfolding w1_def by (rule publishArmed_sound)
  have t2: "trace w2 = trace w1 @ emitted w1 w2"
    unfolding w2_def by (rule publishAlarm_sound)
  have t3: "trace (publishFire br i w2) = trace w2 @ emitted w2 (publishFire br i w2)"
    by (rule publishFire_sound)
  have t12: "trace w2 = trace w @ emitted w w2" by (rule extends_trans [OF t1 t2])
  have e: "emitted w (publishFire br i w2)
      = emitted w w1 @ emitted w1 w2 @ emitted w2 (publishFire br i w2)"
    using emitted_trans [OF t12 t3] emitted_trans [OF t1 t2] by simp
  have d1: "dsc w1 = (dsc w)\<lparr>partitionsArmedChanged := (partitionsArmedChanged (dsc w))[i := False]\<rparr>"
    unfolding w1_def by (rule publishArmed_sound)
  have d2: "dsc w2 = (dsc w1)\<lparr>partitionsAlarmChanged := (partitionsAlarmChanged (dsc w1))[i := False]\<rparr>"
    unfolding w2_def by (rule publishAlarm_sound)
  show "trace (publishPartition br i w) = trace w @ emitted w (publishPartition br i w)"
    unfolding w3 by (rule extends_trans [OF t12 t3])
  have p1: "published (emitted w w1) = armedMessages (dsc w) i"
    unfolding w1_def by (rule publishArmed_sound)
  have p2: "published (emitted w1 w2) = alarmMessages (dsc w1) i"
    unfolding w2_def by (rule publishAlarm_sound)
  have p3: "published (emitted w2 (publishFire br i w2)) = fireMessages (dsc w2) i"
    by (rule publishFire_sound)
  have a: "alarmMessages (dsc w1) i = alarmMessages (dsc w) i"
    by (simp add: d1 alarmMessages_def)
  have f: "fireMessages (dsc w2) i = fireMessages (dsc w) i"
    by (simp add: d1 d2 fireMessages_def)
  show "published (emitted w (publishPartition br i w)) = partitionMessages (dsc w) i"
    unfolding w3 e by (simp add: published_append p1 p2 p3 a f partitionMessages_def)
  show "writes (emitted w (publishPartition br i w)) = []"
    unfolding w3 e
    by (simp add: writes_append w1_def w2_def publishArmed_sound(3) publishAlarm_sound(3)
        publishFire_sound(3))
  show "dsc (publishPartition br i w) = clearPartition i (dsc w)"
    unfolding w3 by (simp add: publishFire_sound d1 d2 clearPartition_def)
qed

lemma publishZone_sound:
  "trace (publishZone br g b w) = trace w @ emitted w (publishZone br g b w)"
  "published (emitted w (publishZone br g b w)) = zoneMessages (dsc w) g b"
  "writes (emitted w (publishZone br g b w)) = []"
  by (simp_all add: publishZone_def zoneMessages_def mqtt_publish_def Let_def emitted_def)

lemma bitWrite_unchanged: "\<not> bitRead v b \<Longrightarrow> bitWrite v b False = v"
proof -
  assume "\<not> bitRead v b"
  then have n: "\<not> bit v b" by (simp add: bitRead_bit)
  have "unset_bit b v = v"
  proof (rule bit_eqI)
    fix n
    show "bit (unset_bit b v) n = bit v n" using n by (auto simp: bit_unset_bit_iff)
  qed
  then show ?thesis by (simp add: bitWrite_clear)
qed

lemma publishZone_dsc: "dsc (publishZone br g b w) = clearZone g b (dsc w)"
  by (simp add: publishZone_def clearZone_def mqtt_publish_def Let_def bitWrite_unchanged)

text \<open>A loop whose iterations do not disturb what the later ones publish.\<close>

lemma fold_sound:
  assumes ext: "\<And>x w. trace (f x w) = trace w @ emitted w (f x w)"
    and pub: "\<And>x w. published (emitted w (f x w)) = msg (dsc w) x"
    and wr: "\<And>x w. writes (emitted w (f x w)) = []"
    and inv: "\<And>x y w. x \<noteq> y \<Longrightarrow> msg (dsc (f x w)) y = msg (dsc w) y"
    and dis: "distinct xs"
  shows "trace (fold f xs w) = trace w @ emitted w (fold f xs w)
    \<and> published (emitted w (fold f xs w)) = concat (map (msg (dsc w)) xs)
    \<and> writes (emitted w (fold f xs w)) = []"
  using dis
proof (induction xs arbitrary: w)
  case Nil
  show ?case by (simp add: emitted_self)
next
  case (Cons x xs)
  let ?w1 = "f x w"
  from Cons.prems have dis: "distinct xs" and nin: "x \<notin> set xs" by simp_all
  note ih = Cons.IH [OF dis, of ?w1]
  have t1: "trace ?w1 = trace w @ emitted w ?w1" by (rule ext)
  have t2: "trace (fold f xs ?w1) = trace ?w1 @ emitted ?w1 (fold f xs ?w1)" using ih by blast
  have e: "emitted w (fold f xs ?w1) = emitted w ?w1 @ emitted ?w1 (fold f xs ?w1)"
    by (rule emitted_trans [OF t1 t2])
  have m: "map (msg (dsc ?w1)) xs = map (msg (dsc w)) xs"
    using nin by (intro map_cong refl inv) auto
  show ?case
    using ih extends_trans [OF t1 t2]
    by (simp add: e published_append writes_append pub wr m)
qed

lemma fold_dsc:
  assumes "\<And>x w. dsc (f x w) = g x (dsc w)"
  shows "dsc (fold f xs w) = fold g xs (dsc w)"
  by (induction xs arbitrary: w) (simp_all add: assms)

subsection \<open>The loop over the partitions\<close>

lemma partitionMessages_clearPartition:
  "x \<noteq> y \<Longrightarrow> partitionMessages (clearPartition x d) y = partitionMessages d y"
  by (simp add: partitionMessages_def armedMessages_def alarmMessages_def fireMessages_def
      clearPartition_def)

lemma partitions_sound:
  "trace (for_loop 0 n (publishPartition br) w)
     = trace w @ emitted w (for_loop 0 n (publishPartition br) w)"
  "published (emitted w (for_loop 0 n (publishPartition br) w))
     = concat (map (partitionMessages (dsc w)) [0..<n])"
  "writes (emitted w (for_loop 0 n (publishPartition br) w)) = []"
  "dsc (for_loop 0 n (publishPartition br) w) = fold clearPartition [0..<n] (dsc w)"
proof -
  have "trace (fold (publishPartition br) [0..<n] w)
      = trace w @ emitted w (fold (publishPartition br) [0..<n] w)
    \<and> published (emitted w (fold (publishPartition br) [0..<n] w))
      = concat (map (partitionMessages (dsc w)) [0..<n])
    \<and> writes (emitted w (fold (publishPartition br) [0..<n] w)) = []"
    by (rule fold_sound)
      (simp_all add: publishPartition_sound partitionMessages_clearPartition)
  then show "trace (for_loop 0 n (publishPartition br) w)
     = trace w @ emitted w (for_loop 0 n (publishPartition br) w)"
    "published (emitted w (for_loop 0 n (publishPartition br) w))
     = concat (map (partitionMessages (dsc w)) [0..<n])"
    "writes (emitted w (for_loop 0 n (publishPartition br) w)) = []"
    by (simp_all add: for_loop_fold)
  show "dsc (for_loop 0 n (publishPartition br) w) = fold clearPartition [0..<n] (dsc w)"
    unfolding for_loop_fold by (rule fold_dsc) (rule publishPartition_sound)
qed

lemma fold_clearPartition:
  "fold clearPartition xs d =
     d\<lparr>partitionsArmedChanged := fold (\<lambda>i l. l[i := False]) xs (partitionsArmedChanged d),
       partitionsAlarmChanged := fold (\<lambda>i l. l[i := False]) xs (partitionsAlarmChanged d),
       partitionsFireChanged := fold (\<lambda>i l. l[i := False]) xs (partitionsFireChanged d)\<rparr>"
  by (induction xs arbitrary: d) (simp_all add: clearPartition_def)

lemma fold_update_keeps: "l ! i = c \<Longrightarrow> fold (\<lambda>i l. l[i := c]) xs l ! i = c"
proof (induction xs arbitrary: l)
  case Nil
  then show ?case by simp
next
  case (Cons x xs)
  have "l[x := c] ! i = c"
    using Cons.prems by (cases "x = i"; cases "i < length l") (simp_all add: list_update_beyond)
  then show ?case using Cons.IH by simp
qed

lemma fold_update_sets:
  "i \<in> set xs \<Longrightarrow> i < length l \<Longrightarrow> fold (\<lambda>i l. l[i := c]) xs l ! i = c"
proof (induction xs arbitrary: l)
  case Nil
  then show ?case by simp
next
  case (Cons x xs)
  show ?case
  proof (cases "x = i")
    case True
    with Cons.prems have "l[x := c] ! i = c" by simp
    then show ?thesis by (simp add: fold_update_keeps)
  next
    case False
    with Cons.prems Cons.IH [of "l[x := c]"] show ?thesis by simp
  qed
qed

subsection \<open>The zone scan\<close>

lemma bitRead_bitWrite_other: "b \<noteq> b' \<Longrightarrow> bitRead (bitWrite v b False) b' = bitRead v b'"
  by (simp add: bitRead_bit bitWrite_clear bit_unset_bit_iff)

lemma zoneMessages_clearZone:
  "b \<noteq> b' \<Longrightarrow> zoneMessages (clearZone g b d) g b' = zoneMessages d g b'"
  by (cases "g < length (openZonesChanged d)")
    (simp_all add: zoneMessages_def clearZone_def bitRead_bitWrite_other list_update_beyond)

lemma fold_clearZone:
  "fold (clearZone g) bs d =
     d\<lparr>openZonesChanged := (openZonesChanged d)
         [g := fold (\<lambda>b v. bitWrite v b False) bs (openZonesChanged d ! g)]\<rparr>"
proof (induction bs arbitrary: d)
  case Nil
  show ?case by simp
next
  case (Cons b bs)
  have "fold (clearZone g) (b # bs) d = fold (clearZone g) bs (clearZone g b d)" by simp
  also have "\<dots> = (clearZone g b d)\<lparr>openZonesChanged := (openZonesChanged (clearZone g b d))
      [g := fold (\<lambda>b v. bitWrite v b False) bs (openZonesChanged (clearZone g b d) ! g)]\<rparr>"
    by (rule Cons.IH)
  also have "\<dots> = d\<lparr>openZonesChanged := (openZonesChanged d)
      [g := fold (\<lambda>b v. bitWrite v b False) (b # bs) (openZonesChanged d ! g)]\<rparr>"
    by (cases "g < length (openZonesChanged d)")
      (simp_all add: clearZone_def list_update_beyond)
  finally show ?case .
qed

lemma group_sound:
  "trace (for_loop 0 8 (publishZone br g) w)
     = trace w @ emitted w (for_loop 0 8 (publishZone br g) w)"
  "published (emitted w (for_loop 0 8 (publishZone br g) w)) = groupMessages (dsc w) g"
  "writes (emitted w (for_loop 0 8 (publishZone br g) w)) = []"
  "dsc (for_loop 0 8 (publishZone br g) w) = fold (clearZone g) [0..<8] (dsc w)"
proof -
  have "trace (fold (publishZone br g) [0..<8] w)
      = trace w @ emitted w (fold (publishZone br g) [0..<8] w)
    \<and> published (emitted w (fold (publishZone br g) [0..<8] w))
      = concat (map (\<lambda>b. zoneMessages (dsc w) g b) [0..<8])
    \<and> writes (emitted w (fold (publishZone br g) [0..<8] w)) = []"
    by (rule fold_sound [where msg = "\<lambda>d b. zoneMessages d g b"])
      (simp_all add: publishZone_sound publishZone_dsc zoneMessages_clearZone)
  then show "trace (for_loop 0 8 (publishZone br g) w)
     = trace w @ emitted w (for_loop 0 8 (publishZone br g) w)"
    "published (emitted w (for_loop 0 8 (publishZone br g) w)) = groupMessages (dsc w) g"
    "writes (emitted w (for_loop 0 8 (publishZone br g) w)) = []"
    by (simp_all add: for_loop_fold groupMessages_def)
  show "dsc (for_loop 0 8 (publishZone br g) w) = fold (clearZone g) [0..<8] (dsc w)"
    unfolding for_loop_fold by (rule fold_dsc) (rule publishZone_dsc)
qed

lemma groupMessages_other:
  "g \<noteq> g' \<Longrightarrow> groupMessages (fold (clearZone g) bs d) g' = groupMessages d g'"
proof -
  assume "g \<noteq> g'"
  then have "zoneMessages (fold (clearZone g) bs d) g' b = zoneMessages d g' b" for b
    by (simp add: zoneMessages_def fold_clearZone)
  then have "zoneMessages (fold (clearZone g) bs d) g' = zoneMessages d g'" by (rule ext)
  then show ?thesis by (simp add: groupMessages_def)
qed

lemma zones_sound:
  "trace (for_loop 0 8 (\<lambda>g. for_loop 0 8 (publishZone br g)) w)
     = trace w @ emitted w (for_loop 0 8 (\<lambda>g. for_loop 0 8 (publishZone br g)) w)"
  "published (emitted w (for_loop 0 8 (\<lambda>g. for_loop 0 8 (publishZone br g)) w))
     = concat (map (groupMessages (dsc w)) [0..<8])"
  "writes (emitted w (for_loop 0 8 (\<lambda>g. for_loop 0 8 (publishZone br g)) w)) = []"
  "dsc (for_loop 0 8 (\<lambda>g. for_loop 0 8 (publishZone br g)) w)
     = fold (\<lambda>g. fold (clearZone g) [0..<8]) [0..<8] (dsc w)"
proof -
  let ?f = "\<lambda>g. for_loop 0 8 (publishZone br g)"
  have "trace (fold ?f [0..<8] w) = trace w @ emitted w (fold ?f [0..<8] w)
    \<and> published (emitted w (fold ?f [0..<8] w)) = concat (map (groupMessages (dsc w)) [0..<8])
    \<and> writes (emitted w (fold ?f [0..<8] w)) = []"
    by (rule fold_sound) (simp_all add: group_sound groupMessages_other)
  then show "trace (for_loop 0 8 ?f w) = trace w @ emitted w (for_loop 0 8 ?f w)"
    "published (emitted w (for_loop 0 8 ?f w)) = concat (map (groupMessages (dsc w)) [0..<8])"
    "writes (emitted w (for_loop 0 8 ?f w)) = []"
    by (simp_all add: for_loop_fold [of 0 8 ?f])
  show "dsc (for_loop 0 8 ?f w) = fold (\<lambda>g. fold (clearZone g) [0..<8]) [0..<8] (dsc w)"
    unfolding for_loop_fold [of 0 8 ?f] by (rule fold_dsc) (rule group_sound)
qed

lemma clear_all_bits: "fold (\<lambda>b v. bitWrite v b False) [0..<8] v = 0"
proof -
  have b: "bit (fold (\<lambda>b v. bitWrite v b False) bs v) n \<longleftrightarrow> bit v n \<and> n \<notin> set bs"
    for bs n and v :: "8 word"
    by (induction bs arbitrary: v) (auto simp: bitWrite_clear bit_unset_bit_iff)
  show ?thesis
  proof (rule bit_eqI)
    fix n
    have "bit v n \<Longrightarrow> n < 8" using bit_imp_le_length [of v n] by simp
    then show "bit (fold (\<lambda>b v. bitWrite v b False) [0..<8] v) n = bit (0 :: 8 word) n"
      by (auto simp: b)
  qed
qed

lemma fold_clearZone_groups:
  "fold (\<lambda>g. fold (clearZone g) [0..<8]) gs d =
     d\<lparr>openZonesChanged := fold (\<lambda>g l. l[g := 0]) gs (openZonesChanged d)\<rparr>"
  by (induction gs arbitrary: d) (simp_all add: fold_clearZone clear_all_bits)

lemma emitted_snoc:
  assumes "trace w1 = trace w @ emitted w w1"
  shows "emitted w (w1\<lparr>trace := trace w1 @ es\<rparr>) = emitted w w1 @ es"
proof -
  define es0 where "es0 = emitted w w1"
  have t: "trace w1 = trace w @ es0" using assms by (simp only: es0_def)
  have "emitted w (w1\<lparr>trace := trace w1 @ es\<rparr>) = es0 @ es" by (simp add: emitted_def t)
  then show ?thesis by (simp only: es0_def)
qed

lemma zoneMessages_cong:
  "openZonesChanged d' = openZonesChanged d \<Longrightarrow> openZones d' = openZones d \<Longrightarrow>
   zoneMessages d' g = zoneMessages d g"
  by (rule ext) (simp add: zoneMessages_def)

lemma groupMessages_cong:
  "openZonesChanged d' = openZonesChanged d \<Longrightarrow> openZones d' = openZones d \<Longrightarrow>
   groupMessages d' = groupMessages d"
  by (rule ext) (simp add: groupMessages_def zoneMessages_cong [of d' d])

lemma partitionMessages_cong:
  "partitionsArmed d' = partitionsArmed d \<Longrightarrow>
   partitionsArmedAway d' = partitionsArmedAway d \<Longrightarrow>
   partitionsArmedStay d' = partitionsArmedStay d \<Longrightarrow>
   partitionsNoEntryDelay d' = partitionsNoEntryDelay d \<Longrightarrow>
   partitionsArmedChanged d' = partitionsArmedChanged d \<Longrightarrow>
   partitionsAlarm d' = partitionsAlarm d \<Longrightarrow>
   partitionsAlarmChanged d' = partitionsAlarmChanged d \<Longrightarrow>
   partitionsFire d' = partitionsFire d \<Longrightarrow>
   partitionsFireChanged d' = partitionsFireChanged d \<Longrightarrow>
   partitionMessages d' = partitionMessages d"
  by (rule ext)
    (simp add: partitionMessages_def armedMessages_def alarmMessages_def fireMessages_def)

lemma publishZones_sound:
  "trace (publishZones br w) = trace w @ emitted w (publishZones br w)"
  "published (emitted w (publishZones br w))
     = (if openZonesStatusChanged (dsc w) then concat (map (groupMessages (dsc w)) [0..<8])
        else [])"
  "writes (emitted w (publishZones br w)) = []"
  "dsc (publishZones br w)
     = (if openZonesStatusChanged (dsc w) then
          (dsc w)\<lparr>openZonesStatusChanged := False,
                  openZonesChanged := fold (\<lambda>g l. l[g := 0]) [0..<8] (openZonesChanged (dsc w))\<rparr>
        else dsc w)"
proof -
  let ?w0 = "w\<lparr>dsc := (dsc w)\<lparr>openZonesStatusChanged := False\<rparr>\<rparr>"
  let ?scan = "for_loop 0 8 (\<lambda>g. for_loop 0 8 (publishZone br g)) ?w0"
  have e: "emitted w x = emitted ?w0 x" for x by (simp add: emitted_def)
  have g: "groupMessages ((dsc w)\<lparr>openZonesStatusChanged := False\<rparr>) = groupMessages (dsc w)"
    by (rule groupMessages_cong) simp_all
  have t: "trace ?scan = trace w @ emitted w ?scan"
    using zones_sound(1) [of br ?w0] by (simp add: e)
  have p: "published (emitted w ?scan) = concat (map (groupMessages (dsc w)) [0..<8])"
    using zones_sound(2) [of ?w0 br] by (simp add: e g)
  have wr: "writes (emitted w ?scan) = []"
    using zones_sound(3) [of ?w0 br] by (simp add: e)
  have d: "dsc ?scan = (dsc w)\<lparr>openZonesStatusChanged := False,
      openZonesChanged := fold (\<lambda>g l. l[g := 0]) [0..<8] (openZonesChanged (dsc w))\<rparr>"
    by (simp add: zones_sound(4) fold_clearZone_groups)
  show "trace (publishZones br w) = trace w @ emitted w (publishZones br w)"
    using t by (simp add: publishZones_def emitted_self)
  show "published (emitted w (publishZones br w))
     = (if openZonesStatusChanged (dsc w) then concat (map (groupMessages (dsc w)) [0..<8])
        else [])"
    using p by (simp add: publishZones_def emitted_self)
  show "writes (emitted w (publishZones br w)) = []"
    using wr by (simp add: publishZones_def emitted_self)
  show "dsc (publishZones br w)
     = (if openZonesStatusChanged (dsc w) then
          (dsc w)\<lparr>openZonesStatusChanged := False,
                  openZonesChanged := fold (\<lambda>g l. l[g := 0]) [0..<8] (openZonesChanged (dsc w))\<rparr>
        else dsc w)"
    using d by (simp add: publishZones_def)
qed

text \<open>The state in which the two loops start: lines 173-184.\<close>

lemma processStatus_sound:
  fixes w :: "'h world"
  defines "d \<equiv> dsc w"
  defines "d4 \<equiv> (if accessCodePrompt d \<and> writeReady d then
                   d\<lparr>statusChanged := False, bufferOverflow := False, accessCodePrompt := False\<rparr>
                 else d\<lparr>statusChanged := False, bufferOverflow := False\<rparr>)"
  defines "d5 \<equiv> d4\<lparr>partitionsArmedChanged :=
        fold (\<lambda>i l. l[i := False]) [0..<dscPartitions] (partitionsArmedChanged d),
      partitionsAlarmChanged :=
        fold (\<lambda>i l. l[i := False]) [0..<dscPartitions] (partitionsAlarmChanged d),
      partitionsFireChanged :=
        fold (\<lambda>i l. l[i := False]) [0..<dscPartitions] (partitionsFireChanged d)\<rparr>"
  shows "published (emitted w (processStatus br w))
     = concat (map (partitionMessages d) [0..<dscPartitions])
       @ (if openZonesStatusChanged d then concat (map (groupMessages d) [0..<8]) else [])"
    and "writes (emitted w (processStatus br w))
     = (if accessCodePrompt d \<and> writeReady d then [Keys accessCode] else [])"
    and "dsc (processStatus br w)
     = (if openZonesStatusChanged d then
          d5\<lparr>openZonesStatusChanged := False,
             openZonesChanged := fold (\<lambda>g l. l[g := 0]) [0..<8] (openZonesChanged d)\<rparr>
        else d5)"
proof -
  define pre where "pre =
    (if bufferOverflow d then [SerialPrintln ''Keybus buffer overflow''] else [])
    @ (if accessCodePrompt d \<and> writeReady d then [PanelWrite (Keys accessCode)] else [])"
  have "\<exists>w4. processStatus br w
        = mqtt_subscribe mqttSubscribeTopic
            (publishZones br (for_loop 0 dscPartitions (publishPartition br) w4))
      \<and> dsc w4 = d4 \<and> trace w4 = trace w @ pre"
    unfolding processStatus_def Let_def
    apply (rule exI)
    apply (intro conjI)
      apply (rule refl)
     apply (simp add: d4_def d_def serial_println_def dsc_write_def)
    apply (simp add: pre_def d_def serial_println_def dsc_write_def)
    done
  then obtain w4 where ps4: "processStatus br w
        = mqtt_subscribe mqttSubscribeTopic
            (publishZones br (for_loop 0 dscPartitions (publishPartition br) w4))"
    and d4: "dsc w4 = d4" and tr4: "trace w4 = trace w @ pre"
    by blast
  define w5 where "w5 = for_loop 0 dscPartitions (publishPartition br) w4"
  define w6 where "w6 = publishZones br w5"
  have ps: "processStatus br w = mqtt_subscribe mqttSubscribeTopic w6"
    unfolding w6_def w5_def by (rule ps4)
  have t4: "trace w4 = trace w @ emitted w w4" by (simp add: tr4 emitted_def)
  have e4: "emitted w w4 = pre" by (simp add: tr4 emitted_def)
  have t5: "trace w5 = trace w4 @ emitted w4 w5" unfolding w5_def by (rule partitions_sound)
  have t6: "trace w6 = trace w5 @ emitted w5 w6" unfolding w6_def by (rule publishZones_sound)
  have t45: "trace w5 = trace w @ emitted w w5" by (rule extends_trans [OF t4 t5])
  have t456: "trace w6 = trace w @ emitted w w6" by (rule extends_trans [OF t45 t6])
  have e: "emitted w (processStatus br w)
      = pre @ emitted w4 w5 @ emitted w5 w6 @ [Subscribe mqttSubscribeTopic]"
  proof -
    have "emitted w (mqtt_subscribe mqttSubscribeTopic w6)
        = emitted w w6 @ [Subscribe mqttSubscribeTopic]"
      unfolding mqtt_subscribe_def by (rule emitted_snoc [OF t456])
    then show ?thesis
      using emitted_trans [OF t45 t6] emitted_trans [OF t4 t5] by (simp add: ps e4)
  qed
  have f4: "partitionsArmedChanged d4 = partitionsArmedChanged d"
    "partitionsAlarmChanged d4 = partitionsAlarmChanged d"
    "partitionsFireChanged d4 = partitionsFireChanged d"
    by (simp_all add: d4_def)
  have d5: "dsc w5 = d5"
    unfolding w5_def by (simp add: partitions_sound(4) fold_clearPartition d4 d5_def f4)
  have m4: "partitionMessages (dsc w4) = partitionMessages d"
    by (rule partitionMessages_cong) (simp_all add: d4 d4_def)
  have m5: "groupMessages (dsc w5) = groupMessages d"
    by (rule groupMessages_cong) (simp_all add: d5 d5_def d4_def)
  have p5: "published (emitted w4 w5) = concat (map (partitionMessages d) [0..<dscPartitions])"
    unfolding w5_def by (simp add: partitions_sound(2) m4)
  have p6: "published (emitted w5 w6)
      = (if openZonesStatusChanged d then concat (map (groupMessages d) [0..<8]) else [])"
    unfolding w6_def by (simp add: publishZones_sound(2) m5) (simp add: d5 d5_def d4_def)
  have pp: "published pre = []" by (simp add: pre_def)
  show "published (emitted w (processStatus br w))
     = concat (map (partitionMessages d) [0..<dscPartitions])
       @ (if openZonesStatusChanged d then concat (map (groupMessages d) [0..<8]) else [])"
    unfolding e by (simp add: published_append pp p5 p6)
  have wp: "writes pre = (if accessCodePrompt d \<and> writeReady d then [Keys accessCode] else [])"
    by (simp add: pre_def)
  have w5e: "writes (emitted w4 w5) = []" unfolding w5_def by (rule partitions_sound)
  have w6e: "writes (emitted w5 w6) = []" unfolding w6_def by (rule publishZones_sound)
  show "writes (emitted w (processStatus br w))
     = (if accessCodePrompt d \<and> writeReady d then [Keys accessCode] else [])"
    unfolding e by (simp add: writes_append wp w5e w6e)
  show "dsc (processStatus br w)
     = (if openZonesStatusChanged d then
          d5\<lparr>openZonesStatusChanged := False,
             openZonesChanged := fold (\<lambda>g l. l[g := 0]) [0..<8] (openZonesChanged d)\<rparr>
        else d5)"
    unfolding ps w6_def
    by (simp add: mqtt_subscribe_def publishZones_sound(4) d5) (simp add: d5_def d4_def)
qed

subsection \<open>Lists of messages\<close>

lemma concat_map_if:
  "concat (map (\<lambda>z. if P z then [h z] else []) zs) = map h (filter P zs)"
  by (induction zs) simp_all

lemma filter_concat_map_none:
  "(\<And>x. x \<in> set xs \<Longrightarrow> filter P (f x) = []) \<Longrightarrow> filter P (concat (map f xs)) = []"
  by (induction xs) simp_all

lemma filter_concat_map_one:
  "distinct xs \<Longrightarrow> p \<in> set xs \<Longrightarrow> (\<And>x. x \<in> set xs \<Longrightarrow> x \<noteq> p \<Longrightarrow> filter P (f x) = []) \<Longrightarrow>
   filter P (concat (map f xs)) = filter P (f p)"
proof (induction xs)
  case Nil
  then show ?case by simp
next
  case (Cons x xs)
  show ?case
  proof (cases "x = p")
    case True
    with Cons.prems have "p \<notin> set xs" by simp
    then have "filter P (concat (map f xs)) = []"
      using Cons.prems(3) by (intro filter_concat_map_none) auto
    with True show ?thesis by simp
  next
    case False
    with Cons.prems have "filter P (f x) = []" "p \<in> set xs" "distinct xs" by auto
    with Cons.IH Cons.prems(3) show ?thesis by simp
  qed
qed

lemma zone_scan_groups:
  "concat (map (\<lambda>g. concat (map (f g) [0..<8])) [0..<n])
     = concat (map (\<lambda>z. f (z div 8) (z mod 8)) [0..<8 * n])"
proof (induction n)
  case 0
  show ?case by simp
next
  case (Suc n)
  have "[0..<8 * Suc n] = [0..<8 * n] @ [8 * n..<8 * n + 8]"
    using upt_add_eq_append [of 0 "8 * n" 8] by (simp add: add.commute)
  also have "[8 * n..<8 * n + 8] = map (\<lambda>b. b + 8 * n) [0..<8]"
    by (simp add: map_add_upt add.commute)
  finally have "[0..<8 * Suc n] = [0..<8 * n] @ map (\<lambda>b. b + 8 * n) [0..<8]" .
  moreover have "concat (map (\<lambda>b. f (n + b div 8) (b mod 8)) [0..<8])
      = concat (map (f n) [0..<8])"
    by (rule arg_cong [where f = concat]) simp
  ultimately show ?case using Suc.IH by (simp add: comp_def)
qed

lemma zone_scan_order:
  "concat (map (\<lambda>g. concat (map (f g) [0..<8])) [0..<8])
     = concat (map (\<lambda>z. f ((z - 1) div 8) ((z - 1) mod 8)) [1..<65])"
proof -
  have "[1..<65] = map Suc [0..<8 * 8]" by (simp add: map_Suc_upt)
  then show ?thesis by (simp add: zone_scan_groups [of f 8] comp_def)
qed

lemma itoa_nat: "itoa (int n) = digits10 n"
  by (simp add: itoa_def)

lemma zone_topics_apart [simp]:
  "partitionPublishTopic i \<noteq> strcat mqttZoneTopic s"
  "firePublishTopic i \<noteq> strcat mqttZoneTopic s"
  "strcat mqttZoneTopic s \<noteq> partitionPublishTopic i"
  "strcat mqttZoneTopic s \<noteq> firePublishTopic i"
  by (simp_all add: partitionPublishTopic_def firePublishTopic_def
      strcat_def mqttPartitionTopic_def mqttFireTopic_def mqttZoneTopic_def)

lemma zoneMessages_zone:
  "1 \<le> z \<Longrightarrow> zoneMessages d ((z - 1) div 8) ((z - 1) mod 8)
     = (if zoneChanged d z then [zoneMessage d z] else [])"
proof -
  assume "1 \<le> z"
  then have "(z - 1) mod 8 + 1 + (z - 1) div 8 * 8 = z" by simp
  then have "zonePublishTopic ((z - 1) div 8) ((z - 1) mod 8) = strcat mqttZoneTopic (itoa (int z))"
    by (simp add: zonePublishTopic_def itoa_zone itoa_nat)
  then show ?thesis
    by (simp add: zoneMessages_def zoneChanged_def zoneOpen_def zoneMessage_def)
qed

lemma zone_scan_messages:
  "concat (map (groupMessages d) [0..<8]) = map (zoneMessage d) (filter (zoneChanged d) [1..<65])"
proof -
  have "groupMessages d = (\<lambda>g. concat (map (zoneMessages d g) [0..<8]))"
    by (rule ext) (simp add: groupMessages_def)
  then have "concat (map (groupMessages d) [0..<8])
      = concat (map (\<lambda>z. zoneMessages d ((z - 1) div 8) ((z - 1) mod 8)) [1..<65])"
    by (simp only: zone_scan_order)
  also have "\<dots> = concat (map (\<lambda>z. if zoneChanged d z then [zoneMessage d z] else []) [1..<65])"
  proof (rule arg_cong [where f = concat], rule map_cong [OF refl])
    fix z :: nat
    assume "z \<in> set [1..<65]"
    then have "1 \<le> z" by simp
    then show "zoneMessages d ((z - 1) div 8) ((z - 1) mod 8)
        = (if zoneChanged d z then [zoneMessage d z] else [])"
      by (rule zoneMessages_zone)
  qed
  also have "\<dots> = map (zoneMessage d) (filter (zoneChanged d) [1..<65])"
    by (rule concat_map_if)
  finally show ?thesis .
qed

lemma partition_topic_other:
  "x \<noteq> p \<Longrightarrow> [m \<leftarrow> partitionMessages d x. fst m = partitionPublishTopic p] = []"
  by (simp add: partitionMessages_def armedMessages_def alarmMessages_def fireMessages_def)

lemma partition_topic_self:
  "[m \<leftarrow> partitionMessages d p. fst m = partitionPublishTopic p]
     = armedMessages d p @ alarmMessages d p"
  by (simp add: partitionMessages_def armedMessages_def alarmMessages_def fireMessages_def)

lemma fire_topic_other:
  "x \<noteq> p \<Longrightarrow> [m \<leftarrow> partitionMessages d x. fst m = firePublishTopic p] = []"
  by (simp add: partitionMessages_def armedMessages_def alarmMessages_def fireMessages_def)

lemma fire_topic_self:
  "[m \<leftarrow> partitionMessages d p. fst m = firePublishTopic p] = fireMessages d p"
  by (simp add: partitionMessages_def armedMessages_def alarmMessages_def fireMessages_def)

lemma zone_topic_partition:
  "[m \<leftarrow> partitionMessages d x. fst m = strcat mqttZoneTopic s] = []"
  by (simp add: partitionMessages_def armedMessages_def alarmMessages_def fireMessages_def)

lemma zone_prefix_partition:
  "[m \<leftarrow> partitionMessages d x. take (strlen mqttZoneTopic) (fst m) = mqttZoneTopic] = []"
  by (simp add: partitionMessages_def armedMessages_def alarmMessages_def fireMessages_def
      partitionPublishTopic_def firePublishTopic_def strcat_def strlen_def
      mqttPartitionTopic_def mqttFireTopic_def mqttZoneTopic_def)

lemma zone_prefix_zone:
  "[m \<leftarrow> map (zoneMessage d) zs. take (strlen mqttZoneTopic) (fst m) = mqttZoneTopic]
     = map (zoneMessage d) zs"
  by (induction zs) (simp_all add: zoneMessage_def strcat_def strlen_def)

lemma not_zone_message [simp]:
  "fst (zoneMessage d z) \<noteq> partitionPublishTopic p"
  "fst (zoneMessage d z) \<noteq> firePublishTopic p"
  by (simp_all add: zoneMessage_def)

lemma zone_topic_zone:
  "distinct zs \<Longrightarrow> z \<in> set zs \<Longrightarrow>
   [m \<leftarrow> map (zoneMessage d) (filter (zoneChanged d) zs). fst m = strcat mqttZoneTopic (itoa (int z))]
     = (if zoneChanged d z then [zoneMessage d z] else [])"
proof (induction zs)
  case Nil
  then show ?case by simp
next
  case (Cons y zs)
  have t: "fst (zoneMessage d y) = strcat mqttZoneTopic (itoa (int z)) \<longleftrightarrow> y = z"
    by (auto simp: zoneMessage_def strcat_def itoa_nat dest: digits10_inj)
  have none: "z \<notin> set zs \<Longrightarrow>
    [m \<leftarrow> map (zoneMessage d) (filter (zoneChanged d) zs).
       fst m = strcat mqttZoneTopic (itoa (int z))] = []"
    by (auto simp: filter_empty_conv zoneMessage_def strcat_def itoa_nat dest: digits10_inj)
  show ?case
  proof (cases "y = z")
    case True
    with Cons.prems have "z \<notin> set zs" by simp
    moreover have "fst (zoneMessage d z) = strcat mqttZoneTopic (itoa (int z))"
      by (simp add: zoneMessage_def)
    ultimately show ?thesis using none True by simp
  next
    case False
    with Cons.prems Cons.IH show ?thesis by (simp add: t)
  qed
qed

text \<open>What one run of the translation publishes, topic by topic.\<close>

lemma partition_topic_messages:
  assumes "p < dscPartitions"
  shows "[m \<leftarrow> published (emitted w (processStatus br w)). fst m = partitionPublishTopic p]
     = armedMessages (dsc w) p @ alarmMessages (dsc w) p"
proof -
  have "[m \<leftarrow> concat (map (partitionMessages (dsc w)) [0..<dscPartitions]).
      fst m = partitionPublishTopic p] = [m \<leftarrow> partitionMessages (dsc w) p.
      fst m = partitionPublishTopic p]"
    using assms by (intro filter_concat_map_one) (simp_all add: partition_topic_other)
  moreover have "[m \<leftarrow> map (zoneMessage (dsc w)) zs. fst m = partitionPublishTopic p] = []" for zs
    by (induction zs) simp_all
  ultimately show ?thesis
    by (simp add: processStatus_sound(1) zone_scan_messages partition_topic_self)
qed

lemma fire_topic_messages:
  assumes "p < dscPartitions"
  shows "[m \<leftarrow> published (emitted w (processStatus br w)). fst m = firePublishTopic p]
     = fireMessages (dsc w) p"
proof -
  have "[m \<leftarrow> concat (map (partitionMessages (dsc w)) [0..<dscPartitions]).
      fst m = firePublishTopic p] = [m \<leftarrow> partitionMessages (dsc w) p.
      fst m = firePublishTopic p]"
    using assms by (intro filter_concat_map_one) (simp_all add: fire_topic_other)
  moreover have "[m \<leftarrow> map (zoneMessage (dsc w)) zs. fst m = firePublishTopic p] = []" for zs
    by (induction zs) simp_all
  ultimately show ?thesis
    by (simp add: processStatus_sound(1) zone_scan_messages fire_topic_self)
qed

lemma zone_prefix_messages:
  "[m \<leftarrow> published (emitted w (processStatus br w)).
      take (strlen mqttZoneTopic) (fst m) = mqttZoneTopic]
     = (if openZonesStatusChanged (dsc w) then
          map (zoneMessage (dsc w)) (filter (zoneChanged (dsc w)) [1..<65])
        else [])"
  by (simp add: processStatus_sound(1) zone_scan_messages zone_prefix_zone
      filter_concat_map_none zone_prefix_partition)

lemma zone_topic_messages:
  assumes "1 \<le> z" "z \<le> 64"
  shows "[m \<leftarrow> published (emitted w (processStatus br w)).
      fst m = strcat mqttZoneTopic (itoa (int z))]
     = (if openZonesStatusChanged (dsc w) \<and> zoneChanged (dsc w) z then [zoneMessage (dsc w) z]
        else [])"
proof -
  have "z \<in> set [1..<65]" using assms by simp
  then have "[m \<leftarrow> map (zoneMessage (dsc w)) (filter (zoneChanged (dsc w)) [1..<65]).
      fst m = strcat mqttZoneTopic (itoa (int z))]
     = (if zoneChanged (dsc w) z then [zoneMessage (dsc w) z] else [])"
    by (intro zone_topic_zone) simp_all
  then show ?thesis
    by (simp add: processStatus_sound(1) zone_scan_messages
        filter_concat_map_none zone_topic_partition)
qed

subsection \<open>The state after a run\<close>

lemma processStatus_after:
  "partitionsArmedChanged (dsc (processStatus br w))
     = fold (\<lambda>i l. l[i := False]) [0..<dscPartitions] (partitionsArmedChanged (dsc w))"
  "partitionsAlarmChanged (dsc (processStatus br w))
     = fold (\<lambda>i l. l[i := False]) [0..<dscPartitions] (partitionsAlarmChanged (dsc w))"
  "partitionsFireChanged (dsc (processStatus br w))
     = fold (\<lambda>i l. l[i := False]) [0..<dscPartitions] (partitionsFireChanged (dsc w))"
  "openZonesStatusChanged (dsc (processStatus br w)) = False"
  "openZonesChanged (dsc (processStatus br w))
     = (if openZonesStatusChanged (dsc w) then
          fold (\<lambda>g l. l[g := 0]) [0..<8] (openZonesChanged (dsc w))
        else openZonesChanged (dsc w))"
  "openZones (dsc (processStatus br w)) = openZones (dsc w)"
  "accessCodePrompt (dsc (processStatus br w))
     = (accessCodePrompt (dsc w) \<and> \<not> writeReady (dsc w))"
  by (auto simp: processStatus_sound(3))

lemma flags_cleared:
  assumes "dsc_arrays (dsc w)" and "p < dscPartitions"
  shows "\<not> partitionsArmedChanged (dsc (processStatus br w)) ! p"
    and "\<not> partitionsAlarmChanged (dsc (processStatus br w)) ! p"
    and "\<not> partitionsFireChanged (dsc (processStatus br w)) ! p"
  using assms fold_update_sets [of p "[0..<dscPartitions]" _ False]
  by (simp_all add: processStatus_after dsc_arrays_def)

lemma zone_bytes_cleared:
  assumes "dsc_arrays (dsc w)" and "openZonesStatusChanged (dsc w)" and "g < 8"
  shows "openZonesChanged (dsc (processStatus br w)) ! g = 0"
  using assms fold_update_sets [of g "[0..<8]" "openZonesChanged (dsc w)" 0]
  by (simp add: processStatus_after dsc_arrays_def)

lemma partitionMessages_quiet:
  "\<not> partitionsArmedChanged d ! i \<Longrightarrow> \<not> partitionsAlarmChanged d ! i \<Longrightarrow>
   \<not> partitionsFireChanged d ! i \<Longrightarrow> partitionMessages d i = []"
  by (simp add: partitionMessages_def armedMessages_def alarmMessages_def fireMessages_def)

lemma processStatus_twice:
  assumes "dsc_arrays (dsc w)"
  shows "published (emitted (processStatus br w) (processStatus br' (processStatus br w))) = []"
proof -
  have "partitionMessages (dsc (processStatus br w)) i = []" if "i < dscPartitions" for i
    using flags_cleared [OF assms that, of br] by (intro partitionMessages_quiet)
  then have "concat (map (partitionMessages (dsc (processStatus br w))) [0..<dscPartitions]) = []"
    by simp
  then show ?thesis
    by (simp add: processStatus_sound(1) [of "processStatus br w"] processStatus_after)
qed

section \<open>What the translator publishes\<close>

subsection \<open>Partitions\<close>

lemma busy_arrays: "dsc_arrays (dsc busy_world)"
  by (simp add: dsc_arrays_def busy_world_def busy_panel_def dscPartitions_def)

lemma topic_1: "partitionPublishTopic 0 = ''dsc/Get/Partition1''"
  by (simp add: partitionPublishTopic_def strcat_def mqttPartitionTopic_def itoa_def
      digits10.simps digit_def)

text \<open>
  C2, as the code has it. For a partition whose armed-changed flag is set, a run of the
  translator clears the flag, and what it publishes to the partition's topic is at most one
  armed-status message, followed by the alarm message \<open>T\<close> when the alarm block fires. The
  armed-status message is retained and is, when the partition is armed, the one picked by
  the order away and no entry delay: \<open>NA\<close>, away: \<open>AA\<close>, stay and no entry delay: \<open>NA\<close>,
  stay: \<open>SA\<close>, with no message at all when neither away nor stay is set; when the partition
  is not armed it is \<open>D\<close>.
\<close>

theorem armed_status_published:
  assumes "dsc_arrays (dsc w)" and "p < dscPartitions"
    and "partitionsArmedChanged (dsc w) ! p"
  shows "\<not> partitionsArmedChanged (dsc (processStatus br w)) ! p
    \<and> [m \<leftarrow> published (emitted w (processStatus br w)). fst m = partitionPublishTopic p]
      = (if partitionsArmed (dsc w) ! p then
           (if partitionsArmedAway (dsc w) ! p \<and> partitionsNoEntryDelay (dsc w) ! p then
              [(partitionPublishTopic p, ''NA'', True)]
            else if partitionsArmedAway (dsc w) ! p then
              [(partitionPublishTopic p, ''AA'', True)]
            else if partitionsArmedStay (dsc w) ! p \<and> partitionsNoEntryDelay (dsc w) ! p then
              [(partitionPublishTopic p, ''NA'', True)]
            else if partitionsArmedStay (dsc w) ! p then
              [(partitionPublishTopic p, ''SA'', True)]
            else [])
         else [(partitionPublishTopic p, ''D'', True)])
        @ (if partitionsAlarmChanged (dsc w) ! p \<and> partitionsAlarm (dsc w) ! p then
             [(partitionPublishTopic p, ''T'', True)]
           else [])"
  using assms(3) flags_cleared(1) [OF assms(1,2), of br]
  by (simp add: partition_topic_messages [OF assms(2)] armedMessages_def alarmMessages_def)

text \<open>Partition 1 of the busy panel is armed away: one retained \<open>AA\<close>.\<close>

theorem armed_status_published_witness:
  "dsc_arrays (dsc busy_world) \<and> 0 < dscPartitions
   \<and> partitionsArmedChanged (dsc busy_world) ! 0
   \<and> \<not> partitionsArmedChanged (dsc (processStatus (always False) busy_world)) ! 0
   \<and> [m \<leftarrow> published (emitted busy_world (processStatus (always False) busy_world)).
        fst m = partitionPublishTopic 0]
     = [(''dsc/Get/Partition1'', ''AA'', True)]"
proof -
  have h: "0 < dscPartitions" "partitionsArmedChanged (dsc busy_world) ! 0"
    "partitionsArmed (dsc busy_world) ! 0" "partitionsArmedAway (dsc busy_world) ! 0"
    "\<not> partitionsNoEntryDelay (dsc busy_world) ! 0"
    "\<not> partitionsAlarmChanged (dsc busy_world) ! 0"
    by (simp_all add: dscPartitions_def busy_world_def busy_panel_def)
  from armed_status_published [OF busy_arrays h(1,2), of "always False"] busy_arrays h
  show ?thesis by (simp add: topic_1)
qed

text \<open>
  Partition 4 of the busy panel has its armed-changed flag set and is armed, with neither
  the away nor the stay flag: the chain of lines 200-203 has no branch for it, and nothing
  is published to its topic. And with the alarm of partition 1 tripped in the same cycle,
  its topic gets two messages, \<open>AA\<close> and then \<open>T\<close>.
\<close>

theorem armed_without_mode_publishes_nothing:
  "partitionsArmedChanged (dsc busy_world) ! 3 \<and> partitionsArmed (dsc busy_world) ! 3
   \<and> [m \<leftarrow> published (emitted busy_world (processStatus (always True) busy_world)).
        fst m = partitionPublishTopic 3] = []
   \<and> [m \<leftarrow> published (emitted
          (busy_world\<lparr>dsc := busy_panel\<lparr>partitionsAlarm := replicate 8 True,
             partitionsAlarmChanged := replicate 8 True\<rparr>\<rparr>)
          (processStatus (always True)
            (busy_world\<lparr>dsc := busy_panel\<lparr>partitionsAlarm := replicate 8 True,
               partitionsAlarmChanged := replicate 8 True\<rparr>\<rparr>))).
        fst m = partitionPublishTopic 0]
     = [(''dsc/Get/Partition1'', ''AA'', True), (''dsc/Get/Partition1'', ''T'', True)]"
proof -
  have p: "(3 :: nat) < dscPartitions" "0 < dscPartitions" by (simp_all add: dscPartitions_def)
  from partition_topic_messages [OF p(1), of busy_world "always True"]
    partition_topic_messages [OF p(2),
      of "busy_world\<lparr>dsc := busy_panel\<lparr>partitionsAlarm := replicate 8 True,
             partitionsAlarmChanged := replicate 8 True\<rparr>\<rparr>" "always True"]
  show ?thesis
    by (simp add: armedMessages_def alarmMessages_def busy_world_def busy_panel_def topic_1)
qed

text \<open>
  C4. For every partition, everything a run publishes to the partition's topic is the
  armed-status message of the armed block, if the armed-changed flag was set, followed by
  what the alarm block adds: exactly one retained \<open>T\<close> when the alarm-changed flag is set and
  the alarm is tripped, and nothing at all otherwise, so no message when the alarm has gone
  back to false. In particular the messages with payload \<open>T\<close> on the topic are that one
  message or none. The alarm-changed flag is clear afterwards in both cases.
\<close>

theorem alarm_tripped_published:
  assumes "dsc_arrays (dsc w)" and "p < dscPartitions"
  shows "[m \<leftarrow> published (emitted w (processStatus br w)). fst m = partitionPublishTopic p]
      = (if partitionsArmedChanged (dsc w) ! p then
           (if partitionsArmed (dsc w) ! p then
              (if partitionsArmedAway (dsc w) ! p \<and> partitionsNoEntryDelay (dsc w) ! p then
                 [(partitionPublishTopic p, ''NA'', True)]
               else if partitionsArmedAway (dsc w) ! p then
                 [(partitionPublishTopic p, ''AA'', True)]
               else if partitionsArmedStay (dsc w) ! p \<and> partitionsNoEntryDelay (dsc w) ! p then
                 [(partitionPublishTopic p, ''NA'', True)]
               else if partitionsArmedStay (dsc w) ! p then
                 [(partitionPublishTopic p, ''SA'', True)]
               else [])
            else [(partitionPublishTopic p, ''D'', True)])
         else [])
        @ (if partitionsAlarmChanged (dsc w) ! p \<and> partitionsAlarm (dsc w) ! p then
             [(partitionPublishTopic p, ''T'', True)]
           else [])
    \<and> [m \<leftarrow> published (emitted w (processStatus br w)).
         fst m = partitionPublishTopic p \<and> fst (snd m) = ''T'']
      = (if partitionsAlarmChanged (dsc w) ! p \<and> partitionsAlarm (dsc w) ! p then
           [(partitionPublishTopic p, ''T'', True)]
         else [])
    \<and> \<not> partitionsAlarmChanged (dsc (processStatus br w)) ! p"
proof (intro conjI)
  show "[m \<leftarrow> published (emitted w (processStatus br w)). fst m = partitionPublishTopic p]
      = (if partitionsArmedChanged (dsc w) ! p then
           (if partitionsArmed (dsc w) ! p then
              (if partitionsArmedAway (dsc w) ! p \<and> partitionsNoEntryDelay (dsc w) ! p then
                 [(partitionPublishTopic p, ''NA'', True)]
               else if partitionsArmedAway (dsc w) ! p then
                 [(partitionPublishTopic p, ''AA'', True)]
               else if partitionsArmedStay (dsc w) ! p \<and> partitionsNoEntryDelay (dsc w) ! p then
                 [(partitionPublishTopic p, ''NA'', True)]
               else if partitionsArmedStay (dsc w) ! p then
                 [(partitionPublishTopic p, ''SA'', True)]
               else [])
            else [(partitionPublishTopic p, ''D'', True)])
         else [])
        @ (if partitionsAlarmChanged (dsc w) ! p \<and> partitionsAlarm (dsc w) ! p then
             [(partitionPublishTopic p, ''T'', True)]
           else [])"
    by (simp add: partition_topic_messages [OF assms(2)] armedMessages_def alarmMessages_def)
next
  have "[m \<leftarrow> published (emitted w (processStatus br w)).
         fst m = partitionPublishTopic p \<and> fst (snd m) = ''T'']
      = [m \<leftarrow> [m \<leftarrow> published (emitted w (processStatus br w)). fst m = partitionPublishTopic p].
          fst (snd m) = ''T'']"
    by (simp add: conj_commute)
  also have "\<dots> = [m \<leftarrow> armedMessages (dsc w) p @ alarmMessages (dsc w) p. fst (snd m) = ''T'']"
    by (simp only: partition_topic_messages [OF assms(2)])
  finally show "[m \<leftarrow> published (emitted w (processStatus br w)).
         fst m = partitionPublishTopic p \<and> fst (snd m) = ''T'']
      = (if partitionsAlarmChanged (dsc w) ! p \<and> partitionsAlarm (dsc w) ! p then
           [(partitionPublishTopic p, ''T'', True)]
         else [])"
    by (simp add: armedMessages_def alarmMessages_def)
next
  show "\<not> partitionsAlarmChanged (dsc (processStatus br w)) ! p"
    by (rule flags_cleared(2) [OF assms])
qed

text \<open>
  Partition 2 of the busy panel is in alarm: its topic gets the one \<open>T\<close>. With the alarm of
  the same partition back to false and the alarm-changed flag still set, its topic gets
  nothing, and the flag is cleared all the same.
\<close>

theorem alarm_tripped_published_witness:
  "dsc_arrays (dsc busy_world) \<and> 1 < dscPartitions
   \<and> [m \<leftarrow> published (emitted busy_world (processStatus (always True) busy_world)).
        fst m = partitionPublishTopic 1]
     = [(partitionPublishTopic 1, ''T'', True)]
   \<and> \<not> partitionsAlarmChanged (dsc (processStatus (always True) busy_world)) ! 1
   \<and> dsc_arrays (dsc (busy_world\<lparr>dsc := busy_panel\<lparr>partitionsAlarm := replicate 8 False\<rparr>\<rparr>))
   \<and> partitionsAlarmChanged
        (dsc (busy_world\<lparr>dsc := busy_panel\<lparr>partitionsAlarm := replicate 8 False\<rparr>\<rparr>)) ! 1
   \<and> \<not> partitionsAlarm
          (dsc (busy_world\<lparr>dsc := busy_panel\<lparr>partitionsAlarm := replicate 8 False\<rparr>\<rparr>)) ! 1
   \<and> [m \<leftarrow> published (emitted
          (busy_world\<lparr>dsc := busy_panel\<lparr>partitionsAlarm := replicate 8 False\<rparr>\<rparr>)
          (processStatus (always True)
            (busy_world\<lparr>dsc := busy_panel\<lparr>partitionsAlarm := replicate 8 False\<rparr>\<rparr>))).
        fst m = partitionPublishTopic 1] = []
   \<and> \<not> partitionsAlarmChanged (dsc (processStatus (always True)
          (busy_world\<lparr>dsc := busy_panel\<lparr>partitionsAlarm := replicate 8 False\<rparr>\<rparr>))) ! 1"
proof -
  let ?quiet = "busy_world\<lparr>dsc := busy_panel\<lparr>partitionsAlarm := replicate 8 False\<rparr>\<rparr>"
  have p: "1 < dscPartitions" by (simp add: dscPartitions_def)
  have h: "\<not> partitionsArmedChanged (dsc busy_world) ! 1"
    "partitionsAlarmChanged (dsc busy_world) ! 1" "partitionsAlarm (dsc busy_world) ! 1"
    by (simp_all add: busy_world_def busy_panel_def)
  have a: "dsc_arrays (dsc ?quiet)"
    by (simp add: dsc_arrays_def busy_panel_def dscPartitions_def)
  have q: "\<not> partitionsArmedChanged (dsc ?quiet) ! 1"
    "partitionsAlarmChanged (dsc ?quiet) ! 1" "\<not> partitionsAlarm (dsc ?quiet) ! 1"
    by (simp_all add: busy_panel_def)
  from alarm_tripped_published [OF busy_arrays p, of "always True"]
  have b: "[m \<leftarrow> published (emitted busy_world (processStatus (always True) busy_world)).
        fst m = partitionPublishTopic 1] = [(partitionPublishTopic 1, ''T'', True)]"
    and c: "\<not> partitionsAlarmChanged (dsc (processStatus (always True) busy_world)) ! 1"
    using h by simp_all
  from alarm_tripped_published [OF a p, of "always True"]
  have d: "[m \<leftarrow> published (emitted ?quiet (processStatus (always True) ?quiet)).
        fst m = partitionPublishTopic 1] = []"
    and e: "\<not> partitionsAlarmChanged (dsc (processStatus (always True) ?quiet)) ! 1"
    using q by simp_all
  from busy_arrays p a q(2,3) b c d e show ?thesis by blast
qed

text \<open>
  C5. For a partition whose fire-changed flag is set, a run publishes exactly one message to
  the partition's fire topic, \<open>1\<close> when the fire alarm is tripped and \<open>0\<close> otherwise, not
  retained, and clears the flag.
\<close>

theorem fire_status_published:
  assumes "dsc_arrays (dsc w)" and "p < dscPartitions"
    and "partitionsFireChanged (dsc w) ! p"
  shows "[m \<leftarrow> published (emitted w (processStatus br w)). fst m = firePublishTopic p]
      = [(firePublishTopic p, if partitionsFire (dsc w) ! p then ''1'' else ''0'', False)]
    \<and> \<not> partitionsFireChanged (dsc (processStatus br w)) ! p"
  using assms(3) flags_cleared(3) [OF assms(1,2), of br]
  by (simp add: fire_topic_messages [OF assms(2)] fireMessages_def)

text \<open>Partition 3 of the busy panel reports fire.\<close>

theorem fire_status_published_witness:
  "dsc_arrays (dsc busy_world) \<and> 2 < dscPartitions
   \<and> partitionsFireChanged (dsc busy_world) ! 2
   \<and> [m \<leftarrow> published (emitted busy_world (processStatus (always True) busy_world)).
        fst m = firePublishTopic 2]
     = [(firePublishTopic 2, ''1'', False)]
   \<and> \<not> partitionsFireChanged (dsc (processStatus (always True) busy_world)) ! 2"
proof -
  have h: "2 < dscPartitions" "partitionsFireChanged (dsc busy_world) ! 2"
    "partitionsFire (dsc busy_world) ! 2"
    by (simp_all add: dscPartitions_def busy_world_def busy_panel_def)
  from fire_status_published [OF busy_arrays h(1,2), of "always True"] busy_arrays h
  show ?thesis by simp
qed

subsection \<open>Zones\<close>

lemma zoneMessage_fun:
  "zoneMessage d = (\<lambda>z. (strcat mqttZoneTopic (itoa (int z)),
      if bitRead (openZones d ! ((z - 1) div 8)) ((z - 1) mod 8) then ''1'' else ''0'', True))"
  by (rule ext) (simp add: zoneMessage_def zoneOpen_def)

lemma zoneChanged_fun:
  "zoneChanged d = (\<lambda>z. bitRead (openZonesChanged d ! ((z - 1) div 8)) ((z - 1) mod 8))"
  by (rule ext) (simp add: zoneChanged_def)

lemma bitRead_zero: "\<not> bitRead 0 b"
  by (simp add: bitRead_bit)

text \<open>
  C3, as the code has it. The zone scan sits behind \<^verbatim>\<open>openZonesStatusChanged\<close>. When that
  flag is set, the messages a run publishes under the zone base topic are, in ascending
  order of the zone number \<open>z\<close> of 1..64, one retained message per zone whose change bit
  (bit \<open>(z - 1) mod 8\<close> of group \<open>(z - 1) div 8\<close>) is set, to the base topic followed by
  \<open>z\<close>, with payload \<open>1\<close> when the zone's open bit is set and \<open>0\<close> when it is clear; a
  zone whose change bit is clear gets no message; all change bits are clear afterwards. When
  the flag is clear, no zone is published and the change bits stay as they are. The flag
  itself is clear after every run.
\<close>

theorem zone_scan_published:
  assumes "dsc_arrays (dsc w)"
  shows "[m \<leftarrow> published (emitted w (processStatus br w)).
          take (strlen mqttZoneTopic) (fst m) = mqttZoneTopic]
      = (if openZonesStatusChanged (dsc w) then
           map (\<lambda>z. (strcat mqttZoneTopic (itoa (int z)),
                      if bitRead (openZones (dsc w) ! ((z - 1) div 8)) ((z - 1) mod 8)
                      then ''1'' else ''0'',
                      True))
             [z \<leftarrow> [1..<65]. bitRead (openZonesChanged (dsc w) ! ((z - 1) div 8)) ((z - 1) mod 8)]
         else [])
    \<and> (\<forall>z\<in>{1..64}.
          [m \<leftarrow> published (emitted w (processStatus br w)).
             fst m = strcat mqttZoneTopic (itoa (int z))]
          = (if openZonesStatusChanged (dsc w)
                \<and> bitRead (openZonesChanged (dsc w) ! ((z - 1) div 8)) ((z - 1) mod 8)
             then [(strcat mqttZoneTopic (itoa (int z)),
                    if bitRead (openZones (dsc w) ! ((z - 1) div 8)) ((z - 1) mod 8)
                    then ''1'' else ''0'',
                    True)]
             else []))
    \<and> (openZonesStatusChanged (dsc w) \<longrightarrow>
          (\<forall>z\<in>{1..64}. \<not> bitRead (openZonesChanged (dsc (processStatus br w)) ! ((z - 1) div 8))
                             ((z - 1) mod 8)))
    \<and> (\<not> openZonesStatusChanged (dsc w) \<longrightarrow>
          openZonesChanged (dsc (processStatus br w)) = openZonesChanged (dsc w))
    \<and> \<not> openZonesStatusChanged (dsc (processStatus br w))"
proof (intro conjI ballI impI)
  show "[m \<leftarrow> published (emitted w (processStatus br w)).
          take (strlen mqttZoneTopic) (fst m) = mqttZoneTopic]
      = (if openZonesStatusChanged (dsc w) then
           map (\<lambda>z. (strcat mqttZoneTopic (itoa (int z)),
                      if bitRead (openZones (dsc w) ! ((z - 1) div 8)) ((z - 1) mod 8)
                      then ''1'' else ''0'',
                      True))
             [z \<leftarrow> [1..<65]. bitRead (openZonesChanged (dsc w) ! ((z - 1) div 8)) ((z - 1) mod 8)]
         else [])"
    unfolding zone_prefix_messages zoneMessage_fun zoneChanged_fun ..
next
  fix z :: nat
  assume "z \<in> {1..64}"
  then have z: "1 \<le> z" "z \<le> 64" by simp_all
  show "[m \<leftarrow> published (emitted w (processStatus br w)).
             fst m = strcat mqttZoneTopic (itoa (int z))]
          = (if openZonesStatusChanged (dsc w)
                \<and> bitRead (openZonesChanged (dsc w) ! ((z - 1) div 8)) ((z - 1) mod 8)
             then [(strcat mqttZoneTopic (itoa (int z)),
                    if bitRead (openZones (dsc w) ! ((z - 1) div 8)) ((z - 1) mod 8)
                    then ''1'' else ''0'',
                    True)]
             else [])"
    unfolding zone_topic_messages [OF z] zoneMessage_def zoneChanged_def zoneOpen_def ..
next
  fix z :: nat
  assume g: "openZonesStatusChanged (dsc w)" and "z \<in> {1..64}"
  then have "(z - 1) div 8 < 8" by auto
  from zone_bytes_cleared [OF assms g this, of br]
  show "\<not> bitRead (openZonesChanged (dsc (processStatus br w)) ! ((z - 1) div 8)) ((z - 1) mod 8)"
    by (simp add: bitRead_zero)
next
  assume "\<not> openZonesStatusChanged (dsc w)"
  then show "openZonesChanged (dsc (processStatus br w)) = openZonesChanged (dsc w)"
    by (simp add: processStatus_after)
next
  show "\<not> openZonesStatusChanged (dsc (processStatus br w))"
    by (simp add: processStatus_after)
qed

lemma topic_zone: "strcat mqttZoneTopic (itoa 10) = ''dsc/Get/Zone10''"
  "strcat mqttZoneTopic (itoa 9) = ''dsc/Get/Zone9''"
  by (simp_all add: strcat_def mqttZoneTopic_def itoa_def digits10.simps digit_def)

lemma bit_1_of_2: "bitRead 2 (Suc 0)"
  by (simp add: bitRead_def)

text \<open>Zone 10 of the busy panel changed and is open; zone 9 did not change.\<close>

theorem zone_scan_published_witness:
  "dsc_arrays (dsc busy_world)
   \<and> [m \<leftarrow> published (emitted busy_world (processStatus (always True) busy_world)).
        fst m = ''dsc/Get/Zone10''] = [(''dsc/Get/Zone10'', ''1'', True)]
   \<and> [m \<leftarrow> published (emitted busy_world (processStatus (always True) busy_world)).
        fst m = ''dsc/Get/Zone9''] = []
   \<and> \<not> bitRead (openZonesChanged (dsc (processStatus (always True) busy_world)) ! 1) 1"
proof -
  note t = zone_scan_published [OF busy_arrays, of "always True"]
  have g: "openZonesStatusChanged (dsc busy_world)"
    by (simp add: busy_world_def busy_panel_def)
  have z10: "bitRead (openZonesChanged (dsc busy_world) ! ((10 - 1) div 8)) ((10 - 1) mod 8)"
    "bitRead (openZones (dsc busy_world) ! ((10 - 1) div 8)) ((10 - 1) mod 8)"
    by (simp_all add: busy_world_def busy_panel_def bit_1_of_2)
  have z9: "\<not> bitRead (openZonesChanged (dsc busy_world) ! ((9 - 1) div 8)) ((9 - 1) mod 8)"
    by (simp add: busy_world_def busy_panel_def bitRead_def)
  have a: "[m \<leftarrow> published (emitted busy_world (processStatus (always True) busy_world)).
        fst m = ''dsc/Get/Zone10''] = [(''dsc/Get/Zone10'', ''1'', True)]"
    using t [THEN conjunct2, THEN conjunct1, THEN bspec, of 10] g z10
    by (simp add: topic_zone)
  have b: "[m \<leftarrow> published (emitted busy_world (processStatus (always True) busy_world)).
        fst m = ''dsc/Get/Zone9''] = []"
    using t [THEN conjunct2, THEN conjunct1, THEN bspec, of 9] z9
    by (simp add: topic_zone)
  have c: "\<not> bitRead (openZonesChanged (dsc (processStatus (always True) busy_world)) ! 1) 1"
    using t [THEN conjunct2, THEN conjunct2, THEN conjunct1, THEN mp, OF g, THEN bspec, of 10]
    by simp
  from busy_arrays a b c show ?thesis by simp
qed

text \<open>
  With \<^verbatim>\<open>openZonesStatusChanged\<close> clear, the set change bit of zone 10 gives no message, and
  the bit is still set after the run.
\<close>

theorem zone_scan_behind_flag:
  "bitRead (openZonesChanged (dsc (busy_world\<lparr>dsc := busy_panel\<lparr>openZonesStatusChanged := False\<rparr>\<rparr>))
      ! ((10 - 1) div 8)) ((10 - 1) mod 8)
   \<and> [m \<leftarrow> published (emitted (busy_world\<lparr>dsc := busy_panel\<lparr>openZonesStatusChanged := False\<rparr>\<rparr>)
         (processStatus (always True)
           (busy_world\<lparr>dsc := busy_panel\<lparr>openZonesStatusChanged := False\<rparr>\<rparr>))).
        fst m = ''dsc/Get/Zone10''] = []
   \<and> bitRead (openZonesChanged (dsc (processStatus (always True)
         (busy_world\<lparr>dsc := busy_panel\<lparr>openZonesStatusChanged := False\<rparr>\<rparr>))) ! 1) 1"
proof -
  let ?w = "busy_world\<lparr>dsc := busy_panel\<lparr>openZonesStatusChanged := False\<rparr>\<rparr>"
  have g: "\<not> openZonesStatusChanged (dsc ?w)" by simp
  have c: "openZonesChanged (dsc ?w) = [0, 2, 0, 0, 0, 0, 0, 0]" by (simp add: busy_panel_def)
  have "[m \<leftarrow> published (emitted ?w (processStatus (always True) ?w)).
      fst m = strcat mqttZoneTopic (itoa (int 10))] = []"
    using g by (subst zone_topic_messages) simp_all
  moreover have "openZonesChanged (dsc (processStatus (always True) ?w)) = [0, 2, 0, 0, 0, 0, 0, 0]"
    using g c by (simp add: processStatus_after)
  ultimately show ?thesis using c by (simp add: topic_zone bit_1_of_2)
qed

subsection \<open>A second run, and the outcome of a publish\<close>

text \<open>
  C6. A second run of the translator right after the first, on the state the first run left
  behind, publishes nothing, whatever the broker answered in the first run.
\<close>

theorem second_run_publishes_nothing:
  assumes "dsc_arrays (dsc w)"
  shows "published (emitted (processStatus br w) (processStatus br' (processStatus br w))) = []"
  using assms by (rule processStatus_twice)

text \<open>The busy panel: the first run publishes, the second does not.\<close>

theorem second_run_publishes_nothing_witness:
  "dsc_arrays (dsc busy_world)
   \<and> published (emitted busy_world (processStatus (always True) busy_world)) \<noteq> []
   \<and> published (emitted (processStatus (always True) busy_world)
        (processStatus (always True) (processStatus (always True) busy_world))) = []"
proof -
  have "(2 :: nat) < dscPartitions" "partitionsFireChanged (dsc busy_world) ! 2"
    by (simp_all add: dscPartitions_def busy_world_def busy_panel_def)
  then have "[m \<leftarrow> published (emitted busy_world (processStatus (always True) busy_world)).
      fst m = firePublishTopic 2] \<noteq> []"
    by (simp add: fire_topic_messages fireMessages_def)
  then have "published (emitted busy_world (processStatus (always True) busy_world)) \<noteq> []"
    by auto
  with busy_arrays second_run_publishes_nothing [OF busy_arrays, of "always True" "always True"]
  show ?thesis by simp
qed

text \<open>
  C7. The state after a run and the sequence of publish attempts made during it are the same
  for every broker, so for every pattern of successes and failures: the result of
  \<^verbatim>\<open>mqtt.publish\<close> is never looked at, and no attempt is repeated. After the run every
  partition's change flags are clear, the zone flag is clear, and the zone change bits are
  clear if the scan ran; a further run publishes nothing.
\<close>

theorem publish_result_ignored:
  assumes "dsc_arrays (dsc w)"
  shows "dsc (processStatus br w) = dsc (processStatus br' w)
    \<and> published (emitted w (processStatus br w)) = published (emitted w (processStatus br' w))
    \<and> (\<forall>p<dscPartitions.
          \<not> partitionsArmedChanged (dsc (processStatus br w)) ! p
          \<and> \<not> partitionsAlarmChanged (dsc (processStatus br w)) ! p
          \<and> \<not> partitionsFireChanged (dsc (processStatus br w)) ! p)
    \<and> \<not> openZonesStatusChanged (dsc (processStatus br w))
    \<and> (openZonesStatusChanged (dsc w) \<longrightarrow>
          (\<forall>g<8. openZonesChanged (dsc (processStatus br w)) ! g = 0))
    \<and> published (emitted (processStatus br w) (processStatus br'' (processStatus br w))) = []"
proof (intro conjI allI impI)
  show "dsc (processStatus br w) = dsc (processStatus br' w)"
    by (simp only: processStatus_sound(3))
  show "published (emitted w (processStatus br w)) = published (emitted w (processStatus br' w))"
    by (simp only: processStatus_sound(1))
  show "\<not> openZonesStatusChanged (dsc (processStatus br w))"
    by (simp add: processStatus_after)
  show "published (emitted (processStatus br w) (processStatus br'' (processStatus br w))) = []"
    using assms by (rule processStatus_twice)
next
  fix p assume "p < dscPartitions"
  with assms show "\<not> partitionsArmedChanged (dsc (processStatus br w)) ! p"
    "\<not> partitionsAlarmChanged (dsc (processStatus br w)) ! p"
    "\<not> partitionsFireChanged (dsc (processStatus br w)) ! p"
    by (rule flags_cleared)+
next
  fix g :: nat
  assume "openZonesStatusChanged (dsc w)" "g < 8"
  with assms show "openZonesChanged (dsc (processStatus br w)) ! g = 0"
    by (rule zone_bytes_cleared)
qed

text \<open>
  The busy panel with a broker that fails every publish, against one that accepts them all.
\<close>

theorem publish_result_ignored_witness:
  "dsc_arrays (dsc busy_world)
   \<and> dsc (processStatus (always False) busy_world) = dsc (processStatus (always True) busy_world)
   \<and> published (emitted busy_world (processStatus (always False) busy_world))
       = published (emitted busy_world (processStatus (always True) busy_world))
   \<and> \<not> partitionsArmedChanged (dsc (processStatus (always False) busy_world)) ! 0
   \<and> \<not> partitionsAlarmChanged (dsc (processStatus (always False) busy_world)) ! 1
   \<and> \<not> partitionsFireChanged (dsc (processStatus (always False) busy_world)) ! 2
   \<and> \<not> openZonesStatusChanged (dsc (processStatus (always False) busy_world))
   \<and> openZonesChanged (dsc (processStatus (always False) busy_world)) ! 1 = 0
   \<and> published (emitted (processStatus (always False) busy_world)
        (processStatus (always False) (processStatus (always False) busy_world))) = []"
proof -
  note t = publish_result_ignored [OF busy_arrays, of "always False" "always True" "always False"]
  have p: "0 < dscPartitions" "1 < dscPartitions" "2 < dscPartitions"
    by (simp_all add: dscPartitions_def)
  have g: "openZonesStatusChanged (dsc busy_world)"
    by (simp add: busy_world_def busy_panel_def)
  from t have f: "\<forall>p<dscPartitions.
          \<not> partitionsArmedChanged (dsc (processStatus (always False) busy_world)) ! p
          \<and> \<not> partitionsAlarmChanged (dsc (processStatus (always False) busy_world)) ! p
          \<and> \<not> partitionsFireChanged (dsc (processStatus (always False) busy_world)) ! p"
    by blast
  from t g have z: "\<forall>g<8. openZonesChanged (dsc (processStatus (always False) busy_world)) ! g = 0"
    by blast
  have "(1 :: nat) < 8" by simp
  with z have z1: "openZonesChanged (dsc (processStatus (always False) busy_world)) ! 1 = 0"
    by blast
  from f p have f0: "\<not> partitionsArmedChanged (dsc (processStatus (always False) busy_world)) ! 0"
    and f1: "\<not> partitionsAlarmChanged (dsc (processStatus (always False) busy_world)) ! 1"
    and f2: "\<not> partitionsFireChanged (dsc (processStatus (always False) busy_world)) ! 2"
    by blast+
  from t busy_arrays f0 f1 f2 z1 show ?thesis by blast
qed

subsection \<open>The access code prompt\<close>

text \<open>
  C9. In a cycle of \<^verbatim>\<open>loop\<close> in which \<^verbatim>\<open>mqttHandle\<close> returns and the bus step then reports a
  completed, changed status, the rest of the cycle writes the access code to the panel
  exactly once when \<^verbatim>\<open>accessCodePrompt\<close> and \<^verbatim>\<open>writeReady\<close> are both set, and clears the
  prompt; otherwise it writes nothing, and a prompt that was set with the write channel
  busy is still set at the end of the cycle.
\<close>

theorem access_code_on_prompt:
  assumes "mqttHandle env mqtt_loop w = Some w1"
    and "handlePanel (dsc w1) = (True, d)" and "statusChanged d"
  shows "\<exists>w'. loop env mqtt_loop handlePanel br w = Some w'
    \<and> writes (emitted w1 w')
        = (if accessCodePrompt d \<and> writeReady d then [Keys accessCode] else [])
    \<and> accessCodePrompt (dsc w') = (accessCodePrompt d \<and> \<not> writeReady d)"
proof -
  let ?w2 = "w1\<lparr>dsc := d\<rparr>"
  have l: "loop env mqtt_loop handlePanel br w = Some (processStatus br ?w2)"
    using assms by (simp add: loop_def)
  have e: "emitted w1 x = emitted ?w2 x" for x by (simp add: emitted_def)
  have "writes (emitted w1 (processStatus br ?w2))
      = (if accessCodePrompt d \<and> writeReady d then [Keys accessCode] else [])"
    unfolding e by (simp add: processStatus_sound(2))
  moreover have "accessCodePrompt (dsc (processStatus br ?w2))
      = (accessCodePrompt d \<and> \<not> writeReady d)"
    by (simp add: processStatus_after)
  ultimately show ?thesis using l by simp
qed

text \<open>
  The busy panel asks for the access code with the write channel ready; the same panel with
  the write channel busy keeps the prompt.
\<close>

theorem access_code_on_prompt_witness:
  "(\<exists>w'. loop \<lparr>connected_before = True, millis = 0, connect_result = True,
             connected_after = True\<rparr> Some (\<lambda>d. (True, d)) (always True) busy_world = Some w'
      \<and> writes (emitted busy_world w') = [Keys accessCode]
      \<and> \<not> accessCodePrompt (dsc w'))
   \<and> (\<exists>w'. loop \<lparr>connected_before = True, millis = 0, connect_result = True,
             connected_after = True\<rparr> Some (\<lambda>d. (True, d\<lparr>writeReady := False\<rparr>)) (always True)
             busy_world = Some w'
      \<and> writes (emitted busy_world w') = []
      \<and> accessCodePrompt (dsc w'))"
proof -
  let ?env = "\<lparr>connected_before = True, millis = 0, connect_result = True,
    connected_after = True\<rparr>"
  have h: "mqttHandle ?env Some busy_world = Some busy_world"
    by (simp add: mqttHandle_def)
  have a: "(True, dsc busy_world) = (True, busy_panel)"
    "statusChanged busy_panel" "accessCodePrompt busy_panel" "writeReady busy_panel"
    by (simp_all add: busy_world_def busy_panel_def)
  have b: "(True, (dsc busy_world)\<lparr>writeReady := False\<rparr>)
      = (True, busy_panel\<lparr>writeReady := False\<rparr>)"
    "statusChanged (busy_panel\<lparr>writeReady := False\<rparr>)"
    "accessCodePrompt (busy_panel\<lparr>writeReady := False\<rparr>)"
    "\<not> writeReady (busy_panel\<lparr>writeReady := False\<rparr>)"
    by (simp_all add: busy_world_def busy_panel_def)
  from access_code_on_prompt [where handlePanel = "\<lambda>d. (True, d)" and br = "always True",
      OF h a(1,2)]
    access_code_on_prompt [where handlePanel = "\<lambda>d. (True, d\<lparr>writeReady := False\<rparr>)"
      and br = "always True", OF h b(1,2)] a b
  show ?thesis by simp
qed

end
